theory Spec2Isabelle
  imports Complex_Main "HOL-Library.Log_Nat"
begin

section \<open>Python values used by kidney.py\<close>

text \<open>
  A Python \<open>float\<close> is an IEEE binary64 value: a finite value (kept here exactly, as
  the rational it denotes), one of the two infinities, or nan. The two zeros are
  identified: every comparison of the program treats them alike.
\<close>

datatype pyfloat = Fin rat | PInf | NInf | NaN

text \<open>The bounds of the schema are written as \<open>int\<close> literals (0, 120) or \<open>float\<close>
  literals (1.005, 0.4).\<close>

datatype pynum = PyInt int | PyFloat pyfloat

text \<open>The values the program stores and passes around: \<open>None\<close>, a \<open>str\<close>, a number.\<close>

datatype pyval = PyNone | Str string | Num pynum

text \<open>Instances of \<open>Exception\<close> subclasses; \<open>OtherError\<close> stands for every class not
  named by the program, with the text of the exception.\<close>

datatype exn = FileNotFoundError | ValueError | KeyError | IndexError | TypeError
  | OverflowError | OtherError string

subsection \<open>Comparison of numbers\<close>

text \<open>Python compares an \<open>int\<close> with a \<open>float\<close> by their exact values; every ordering
  comparison with nan is false.\<close>

fun num_val :: "pynum \<Rightarrow> pyfloat" where
  "num_val (PyInt i) = Fin (of_int i)"
| "num_val (PyFloat f) = f"

fun float_lt :: "pyfloat \<Rightarrow> pyfloat \<Rightarrow> bool" where
  "float_lt NaN y = False"
| "float_lt x NaN = False"
| "float_lt x NInf = False"
| "float_lt NInf y = True"
| "float_lt PInf y = False"
| "float_lt (Fin a) PInf = True"
| "float_lt (Fin a) (Fin b) = (a < b)"

definition float_le :: "pyfloat \<Rightarrow> pyfloat \<Rightarrow> bool" where
  "float_le x y \<longleftrightarrow> x \<noteq> NaN \<and> y \<noteq> NaN \<and> (x = y \<or> float_lt x y)"

definition num_lt :: "pynum \<Rightarrow> pynum \<Rightarrow> bool" where
  "num_lt a b = float_lt (num_val a) (num_val b)"

definition num_gt :: "pynum \<Rightarrow> pynum \<Rightarrow> bool" where
  "num_gt a b = float_lt (num_val b) (num_val a)"

text \<open>Membership of a number in the closed interval \<open>[lo, hi]\<close>.\<close>

definition in_closed_interval :: "pyfloat \<Rightarrow> pynum \<Rightarrow> pynum \<Rightarrow> bool" where
  "in_closed_interval v lo hi \<longleftrightarrow> float_le (num_val lo) v \<and> float_le v (num_val hi)"

subsection \<open>Rounding to binary64\<close>

definition pow2 :: "int \<Rightarrow> rat" where
  "pow2 k = (if 0 \<le> k then 2 ^ nat k else 1 / 2 ^ nat (- k))"

definition pow10 :: "int \<Rightarrow> rat" where
  "pow10 k = (if 0 \<le> k then 10 ^ nat k else 1 / 10 ^ nat (- k))"

text \<open>\<open>ilog2 a\<close> is the exponent \<open>e\<close> with \<open>2 ^ e \<le> a < 2 ^ (e + 1)\<close>, for positive \<open>a\<close>:
  one less than the number of bits of \<open>\<lfloor>a\<rfloor>\<close> from 1 on, and below 1 the least \<open>k\<close> with
  \<open>1 / a \<le> 2 ^ k\<close>, negated.\<close>

definition ilog2 :: "rat \<Rightarrow> int" where
  "ilog2 a =
     (if 1 \<le> a then int (floorlog 2 (nat \<lfloor>a\<rfloor>)) - 1
      else - int (floorlog 2 (nat (\<lceil>1 / a\<rceil> - 1))))"

definition round_half_even :: "rat \<Rightarrow> int" where
  "round_half_even x =
     (let f = \<lfloor>x\<rfloor>; d = x - of_int f
      in if d < 1 / 2 then f
         else if 1 / 2 < d then f + 1
         else if even f then f else f + 1)"

text \<open>
  The nearest binary64 value of a rational, ties to even: 53 significant bits, the
  least exponent of a normal number is \<open>-1022\<close> (below it the spacing stays
  \<open>2 ^ -1074\<close>), and a result of \<open>2 ^ 1024\<close> or more is an infinity. This is what
  the compiler does with a \<open>float\<close> literal and what \<open>float(str)\<close> does with a decimal
  string.
\<close>

definition round_binary64 :: "rat \<Rightarrow> pyfloat" where
  "round_binary64 x =
     (if x = 0 then Fin 0
      else
        let a = \<bar>x\<bar>;
            e = max (ilog2 a) (- 1022);
            u = pow2 (e - 52);
            r = of_int (round_half_even (a / u)) * u
        in if pow2 1024 \<le> r then (if x < 0 then NInf else PInf)
           else Fin (if x < 0 then - r else r))"

subsection \<open>Strings\<close>

text \<open>
  A \<open>str\<close> is modelled as a list of 8-bit characters. The model follows Python on
  ASCII text; for characters outside ASCII (Unicode digits and spaces, which
  \<open>float\<close> also accepts, and Unicode case mappings) it treats the bytes as ordinary
  characters.
\<close>

definition lower_char :: "char \<Rightarrow> char" where
  "lower_char c =
     (if (65::nat) \<le> of_char c \<and> of_char c \<le> (90::nat) then char_of (of_char c + (32::nat)) else c)"

definition lower :: "string \<Rightarrow> string" where
  "lower s = map lower_char s"

definition is_digit :: "char \<Rightarrow> bool" where
  "is_digit c \<longleftrightarrow> (48::nat) \<le> of_char c \<and> of_char c \<le> (57::nat)"

definition digits_val :: "string \<Rightarrow> nat" where
  "digits_val ds = foldl (\<lambda>n c. 10 * n + (of_char c - 48)) 0 ds"

definition py_isspace :: "char \<Rightarrow> bool" where
  "py_isspace c \<longleftrightarrow> c \<in> set [CHR 0x09, CHR 0x0A, CHR 0x0B, CHR 0x0C, CHR 0x0D, CHR 0x20]"

definition strip :: "string \<Rightarrow> string" where
  "strip s = rev (dropWhile py_isspace (rev (dropWhile py_isspace s)))"

subsection \<open>The builtin \<open>float\<close> on a string\<close>

text \<open>
  \<open>float(s)\<close> first checks and removes underscores (each must stand between two
  digits), strips white space, reads an optional sign, and then either one of the words
  \<open>inf\<close>, \<open>infinity\<close>, \<open>nan\<close> in any case, or a decimal numeral: digits with an optional
  point, at least one digit in all, and an optional exponent \<open>e\<close> with its own sign and
  at least one digit. Anything else raises \<open>ValueError\<close>, here \<open>None\<close>.
\<close>

fun remove_underscores :: "char \<Rightarrow> string \<Rightarrow> string option" where
  "remove_underscores prev [] = (if prev = CHR ''_'' then None else Some [])"
| "remove_underscores prev (c # cs) =
     (if c = CHR ''_'' then
        (if is_digit prev then remove_underscores c cs else None)
      else if prev = CHR ''_'' \<and> \<not> is_digit c then None
      else map_option ((#) c) (remove_underscores c cs))"

definition split_sign :: "string \<Rightarrow> bool \<times> string" where
  "split_sign s =
     (case s of
        [] \<Rightarrow> (False, [])
      | c # cs \<Rightarrow>
          if c = CHR ''-'' then (True, cs)
          else if c = CHR ''+'' then (False, cs)
          else (False, s))"

definition parse_exponent :: "string \<Rightarrow> int option" where
  "parse_exponent s =
     (case s of
        [] \<Rightarrow> Some 0
      | c # cs \<Rightarrow>
          if c = CHR ''e'' \<or> c = CHR ''E'' then
            (let (neg, ds) = split_sign cs
             in if ds \<noteq> [] \<and> list_all is_digit ds
                then Some (if neg then - int (digits_val ds) else int (digits_val ds))
                else None)
          else None)"

definition parse_decimal :: "string \<Rightarrow> rat option" where
  "parse_decimal s =
     (let ip = takeWhile is_digit s;
          r1 = dropWhile is_digit s;
          has_point = (r1 \<noteq> [] \<and> hd r1 = CHR ''.'');
          fp = (if has_point then takeWhile is_digit (tl r1) else []);
          r2 = (if has_point then dropWhile is_digit (tl r1) else r1)
      in if ip @ fp = [] then None
         else case parse_exponent r2 of
                None \<Rightarrow> None
              | Some e \<Rightarrow> Some (of_nat (digits_val (ip @ fp)) * pow10 (e - int (length fp))))"

definition py_float :: "string \<Rightarrow> pyfloat option" where
  "py_float raw =
     (case remove_underscores (CHR 0x00) raw of
        None \<Rightarrow> None
      | Some s \<Rightarrow>
          let (neg, body) = split_sign (strip s); word = lower body
          in if word = ''inf'' \<or> word = ''infinity'' then Some (if neg then NInf else PInf)
             else if word = ''nan'' then Some NaN
             else case parse_decimal body of
                    None \<Rightarrow> None
                  | Some q \<Rightarrow> Some (round_binary64 (if neg then - q else q)))"

section \<open>Input validation functions\<close>

text \<open>The messages of the program, one constructor for each message text; the parts
  that an f-string fills in are the arguments.\<close>

datatype message =
    ModelFileNotFound
  | ShouldBeBetween string pynum pynum
  | ShouldBeNumeric string
  | ShouldBeOneOf string "string list"
  | PleaseFillIn string
  | NotLikelyCKD
  | LikelyCKD
  | Disclaimer
  | PredictionError exn

text \<open>Both validators return the pair \<open>(val, error)\<close>, one of the two being \<open>None\<close>.\<close>

definition validate_numeric_input ::
  "string \<Rightarrow> pynum \<Rightarrow> pynum \<Rightarrow> string \<Rightarrow> pyval \<times> message option" where
  "validate_numeric_input value min_val max_val field_name =
     (case py_float value of
        Some val \<Rightarrow>
          if num_lt (PyFloat val) min_val \<or> num_gt (PyFloat val) max_val
          then (PyNone, Some (ShouldBeBetween field_name min_val max_val))
          else (Num (PyFloat val), None)
      | None \<Rightarrow> (PyNone, Some (ShouldBeNumeric field_name)))"

definition validate_categorical_input ::
  "string \<Rightarrow> string list \<Rightarrow> string \<Rightarrow> pyval \<times> message option" where
  "validate_categorical_input value valid_options field_name =
     (if lower value \<notin> set valid_options
      then (PyNone, Some (ShouldBeOneOf field_name valid_options))
      else (Str (lower value), None))"

section \<open>Encoding mappings and the field schema\<close>

text \<open>A Python \<open>dict\<close> keeps its keys in insertion order: it is a list of pairs
  with distinct keys. Assigning to a key that is present replaces the value in place,
  a new key goes to the end; reading a missing key raises \<open>KeyError\<close>.\<close>

fun dict_set :: "('k \<times> 'v) list \<Rightarrow> 'k \<Rightarrow> 'v \<Rightarrow> ('k \<times> 'v) list" where
  "dict_set [] k v = [(k, v)]"
| "dict_set ((k', v') # d) k v = (if k' = k then (k, v) # d else (k', v') # dict_set d k v)"

definition dict_get :: "('k \<times> 'v) list \<Rightarrow> 'k \<Rightarrow> exn + 'v" where
  "dict_get d k = (case map_of d k of None \<Rightarrow> Inl KeyError | Some v \<Rightarrow> Inr v)"

definition dict_update :: "('k \<times> 'v) list \<Rightarrow> ('k \<times> 'v) list \<Rightarrow> ('k \<times> 'v) list" where
  "dict_update d other = fold (\<lambda>(k, v) acc. dict_set acc k v) other d"

definition categorical_encodings :: "(string \<times> (string \<times> int) list) list" where
  "categorical_encodings =
   [(''red_blood_cells'', [(''normal'', 1), (''abnormal'', 0)]),
    (''pus_cell'', [(''normal'', 1), (''abnormal'', 0)]),
    (''pus_cell_clumps'', [(''present'', 1), (''notpresent'', 0)]),
    (''bacteria'', [(''present'', 1), (''notpresent'', 0)]),
    (''hypertension'', [(''yes'', 1), (''no'', 0)]),
    (''diabetes_mellitus'', [(''yes'', 1), (''no'', 0)]),
    (''coronary_artery_disease'', [(''yes'', 1), (''no'', 0)]),
    (''appetite'', [(''good'', 1), (''poor'', 0)]),
    (''pedal_edema'', [(''yes'', 1), (''no'', 0)]),
    (''anemia'', [(''yes'', 1), (''no'', 0)])]"

text \<open>A field's entry: \<open>{'type': 'numeric', 'min', 'max', 'label'}\<close> or
  \<open>{'type': 'categorical', 'options', 'label'}\<close>.\<close>

datatype field_info = Numeric pynum pynum string | Categorical "string list" string

fun label :: "field_info \<Rightarrow> string" where
  "label (Numeric mn mx l) = l"
| "label (Categorical opts l) = l"

text \<open>A \<open>float\<close> literal of the source denotes the nearest binary64 value.\<close>

definition float_literal :: "rat \<Rightarrow> pynum" where
  "float_literal q = PyFloat (round_binary64 q)"

text \<open>The superscript three of two labels is outside ASCII: its two UTF-8 bytes.\<close>

definition cubed :: string where
  "cubed = [CHR 0xC2, CHR 0xB3]"

definition input_categories :: "(string \<times> (string \<times> field_info) list) list" where
  "input_categories =
   [(''Demographic Data'',
     [(''age'', Numeric (PyInt 0) (PyInt 120) ''Age''),
      (''blood_pressure'', Numeric (PyInt 50) (PyInt 200) ''Blood Pressure (mm Hg)'')]),
    (''Laboratory Results'',
     [(''specific_gravity'',
         Numeric (float_literal (1005 / 1000)) (float_literal (1025 / 1000)) ''Specific Gravity''),
      (''albumin'', Numeric (PyInt 0) (PyInt 5) ''Albumin (g/dL)''),
      (''sugar'', Numeric (PyInt 0) (PyInt 5) ''Sugar Level''),
      (''red_blood_cells'', Categorical [''normal'', ''abnormal''] ''Red Blood Cells''),
      (''pus_cell'', Categorical [''normal'', ''abnormal''] ''Pus Cell''),
      (''pus_cell_clumps'', Categorical [''present'', ''notpresent''] ''Pus Cell Clumps''),
      (''bacteria'', Categorical [''present'', ''notpresent''] ''Bacteria''),
      (''blood_glucose_random'',
         Numeric (PyInt 70) (PyInt 400) ''Blood Glucose Random (mg/dL)''),
      (''blood_urea'', Numeric (PyInt 10) (PyInt 200) ''Blood Urea (mg/dL)''),
      (''serum_creatinine'',
         Numeric (float_literal (4 / 10)) (PyInt 15) ''Serum Creatinine (mg/dL)''),
      (''sodium'', Numeric (PyInt 100) (PyInt 150) ''Sodium (mEq/L)''),
      (''potassium'', Numeric (float_literal (25 / 10)) (PyInt 7) ''Potassium (mEq/L)''),
      (''hemoglobin'',
         Numeric (float_literal (35 / 10)) (float_literal (175 / 10)) ''Hemoglobin (g/dL)''),
      (''packed_cell_volume'', Numeric (PyInt 15) (PyInt 55) ''Packed Cell Volume (%)''),
      (''white_blood_cell_count'',
         Numeric (PyInt 2000) (PyInt 30000) (''White Blood Cell Count (/mm'' @ cubed @ '')'')),
      (''red_blood_cell_count'',
         Numeric (PyInt 2) (PyInt 8) (''Red Blood Cell Count (millions/mm'' @ cubed @ '')''))]),
    (''Medical History'',
     [(''hypertension'', Categorical [''yes'', ''no''] ''Hypertension''),
      (''diabetes_mellitus'', Categorical [''yes'', ''no''] ''Diabetes Mellitus''),
      (''coronary_artery_disease'', Categorical [''yes'', ''no''] ''Coronary Artery Disease''),
      (''appetite'', Categorical [''good'', ''poor''] ''Appetite''),
      (''pedal_edema'', Categorical [''yes'', ''no''] ''Pedal Edema''),
      (''anemia'', Categorical [''yes'', ''no''] ''Anemia'')])]"

text \<open>The flat list of field names: the loop extends the list with the keys of each
  category in turn.\<close>

definition input_fields :: "string list" where
  "input_fields = fold (\<lambda>category acc. acc @ map fst category) (map snd input_categories) []"

text \<open>
  \<open>encode_input\<close>: a field of the encoding table is looked up twice (the second lookup
  raises \<open>KeyError\<close> for a key that is not an option); for any other field the value
  goes through \<open>float\<close>, which leaves a \<open>float\<close> as it is, converts an \<open>int\<close> (an
  \<open>int\<close> beyond the range of binary64 raises \<open>OverflowError\<close>), parses a \<open>str\<close> and
  raises \<open>TypeError\<close> on \<open>None\<close>.
\<close>

definition py_float_of :: "pyval \<Rightarrow> exn + pyfloat" where
  "py_float_of v =
     (case v of
        Num (PyFloat f) \<Rightarrow> Inr f
      | Num (PyInt i) \<Rightarrow>
          (case round_binary64 (of_int i) of Fin q \<Rightarrow> Inr (Fin q) | _ \<Rightarrow> Inl OverflowError)
      | Str s \<Rightarrow> (case py_float s of None \<Rightarrow> Inl ValueError | Some f \<Rightarrow> Inr f)
      | PyNone \<Rightarrow> Inl TypeError)"

definition encode_input :: "string \<Rightarrow> pyval \<Rightarrow> exn + pynum" where
  "encode_input field_name value =
     (case map_of categorical_encodings field_name of
        Some encoding \<Rightarrow>
          (case value of
             Str s \<Rightarrow> (case map_of encoding s of None \<Rightarrow> Inl KeyError | Some n \<Rightarrow> Inr (PyInt n))
           | _ \<Rightarrow> Inl KeyError)
      | None \<Rightarrow> (case py_float_of value of Inl e \<Rightarrow> Inl e | Inr f \<Rightarrow> Inr (PyFloat f)))"

section \<open>The page: one run of \<open>main\<close>\<close>

text \<open>
  What one run of the script does, in program order: the Streamlit calls, the calls of
  the two validators and the call of the classifier. A widget call carries the column
  it is placed in, its label and its key.
\<close>

datatype event =
    St_error message
  | St_success message
  | St_warning message
  | St_title
  | St_markdown
  | St_form
  | St_subheader string
  | St_columns nat
  | St_selectbox nat string "string list" string
  | St_text_input nat string string
  | St_form_submit_button
  | Call_validate_numeric_input string pynum pynum string
  | Call_validate_categorical_input string "string list" string
  | Call_predict "pynum list list"

text \<open>The unpickled classifier: whether the object is true as a condition (an object
  with a \<open>__len__\<close> of 0 is not), and its \<open>predict\<close>, which returns the sequence of
  labels or raises.\<close>

record classifier =
  truthy :: bool
  predict :: "pynum list list \<Rightarrow> exn + pyval list"

text \<open>\<open>load_model\<close>: the argument is what \<open>pickle.load(open('model/model_knn.sav', 'rb'))\<close>
  does in the environment (it raises \<open>FileNotFoundError\<close> when the file is absent);
  any other exception is not caught.\<close>

definition load_model :: "exn + classifier \<Rightarrow> event list \<times> (exn + classifier option)" where
  "load_model artifact =
     (case artifact of
        Inr m \<Rightarrow> ([], Inr (Some m))
      | Inl e \<Rightarrow>
          if e = FileNotFoundError then ([St_error ModelFileNotFound], Inr None)
          else ([], Inl e))"

text \<open>The value a widget returns: what the session holds under the widget's key, the
  empty string when nothing was entered. A select box can only return the empty string or
  one of its options; the model lets the environment return any string, which covers
  every behaviour of the page.\<close>

definition widget_value :: "(string \<times> string) list \<Rightarrow> string \<Rightarrow> string" where
  "widget_value entered key = (case map_of entered key of None \<Rightarrow> [] | Some v \<Rightarrow> v)"

fun render_fields ::
  "(string \<times> string) list \<Rightarrow> (string \<times> field_info) list \<Rightarrow> nat \<Rightarrow> (string \<times> string) list
   \<Rightarrow> event list \<times> (string \<times> string) list" where
  "render_fields entered [] col_idx input_values = ([], input_values)"
| "render_fields entered ((field_name, info) # field_list) col_idx input_values =
     (let value = widget_value entered field_name;
          widget = (case info of
                      Categorical options l \<Rightarrow> St_selectbox col_idx l ([] # options) field_name
                    | Numeric mn mx l \<Rightarrow> St_text_input col_idx l field_name);
          (evs, result) = render_fields entered field_list ((col_idx + 1) mod 4)
                            (dict_set input_values field_name value)
      in (widget # evs, result))"

fun render_categories ::
  "(string \<times> string) list \<Rightarrow> (string \<times> (string \<times> field_info) list) list
   \<Rightarrow> (string \<times> string) list \<Rightarrow> event list \<times> (string \<times> string) list" where
  "render_categories entered [] input_values = ([], input_values)"
| "render_categories entered ((category_name, field_list) # categories) input_values =
     (let (evs1, values1) = render_fields entered field_list 0 input_values;
          (evs2, values2) = render_categories entered categories values1
      in (St_subheader category_name # St_columns 4 # evs1 @ evs2, values2))"

text \<open>\<open>all_fields\<close>: the categories flattened into one dict.\<close>

definition all_fields :: "(string \<times> field_info) list" where
  "all_fields = fold (\<lambda>category acc. dict_update acc category) (map snd input_categories) []"

text \<open>The state of the validation loop.\<close>

record vstate =
  valid_inputs :: "(string \<times> pyval) list"
  has_errors :: bool

text \<open>The branch on the field's type: which validator is called, with which
  arguments, and the pair it returns.\<close>

definition run_validator :: "field_info \<Rightarrow> string \<Rightarrow> event \<times> pyval \<times> message option" where
  "run_validator info value =
     (case info of
        Numeric mn mx l \<Rightarrow>
          (Call_validate_numeric_input value mn mx l, validate_numeric_input value mn mx l)
      | Categorical options l \<Rightarrow>
          (Call_validate_categorical_input value options l,
           validate_categorical_input value options l))"

text \<open>The body of the validation loop for one item of \<open>input_values\<close>, after
  \<open>field_info\<close> has been looked up: an empty value is reported and the loop continues
  with the next item; otherwise the validator runs and its error, if any, is reported.\<close>

definition validate_field ::
  "string \<Rightarrow> field_info \<Rightarrow> string \<Rightarrow> vstate \<Rightarrow> event list \<times> vstate" where
  "validate_field field_name info value st =
     (if value = [] then
        ([St_error (PleaseFillIn (label info))], st\<lparr>has_errors := True\<rparr>)
      else
        let (call, val, error) = run_validator info value
        in case error of
             Some msg \<Rightarrow> ([call, St_error msg], st\<lparr>has_errors := True\<rparr>)
           | None \<Rightarrow> ([call], st\<lparr>valid_inputs := dict_set (valid_inputs st) field_name val\<rparr>))"

fun validate_all ::
  "(string \<times> field_info) list \<Rightarrow> (string \<times> string) list \<Rightarrow> vstate
   \<Rightarrow> event list \<times> (exn + vstate)" where
  "validate_all fields_dict [] st = ([], Inr st)"
| "validate_all fields_dict ((field_name, value) # items) st =
     (case dict_get fields_dict field_name of
        Inl e \<Rightarrow> ([], Inl e)
      | Inr info \<Rightarrow>
          let (evs1, st1) = validate_field field_name info value st;
              (evs2, result) = validate_all fields_dict items st1
          in (evs1 @ evs2, result))"

text \<open>The list comprehension that prepares the input of the model.\<close>

fun input_array :: "(string \<times> pyval) list \<Rightarrow> string list \<Rightarrow> exn + pynum list" where
  "input_array inputs [] = Inr []"
| "input_array inputs (field # field_list) =
     (case dict_get inputs field of
        Inl e \<Rightarrow> Inl e
      | Inr v \<Rightarrow>
          (case encode_input field v of
             Inl e \<Rightarrow> Inl e
           | Inr x \<Rightarrow>
               (case input_array inputs field_list of
                  Inl e \<Rightarrow> Inl e
                | Inr xs \<Rightarrow> Inr (x # xs))))"

text \<open>\<open>prediction[0] == 1\<close>: a number equal to one; a string or \<open>None\<close> is not.\<close>

fun equals_one :: "pyval \<Rightarrow> bool" where
  "equals_one (Num n) = (num_val n = Fin 1)"
| "equals_one v = False"

text \<open>What follows the call of \<open>predict\<close> inside the \<open>try\<close> block: an exception of
  the call goes to the handler; otherwise \<open>prediction[0]\<close> is read (\<open>IndexError\<close> on an empty
  result, handled alike), the banner is chosen and the warning is shown.\<close>

definition report_prediction :: "exn + pyval list \<Rightarrow> event list" where
  "report_prediction outcome =
     (case outcome of
        Inl e \<Rightarrow> [St_error (PredictionError e)]
      | Inr prediction \<Rightarrow>
          (case prediction of
             [] \<Rightarrow> [St_error (PredictionError IndexError)]
           | p # rest \<Rightarrow>
               if equals_one p then [St_success NotLikelyCKD, St_warning Disclaimer]
               else [St_error LikelyCKD, St_warning Disclaimer]))"

text \<open>The \<open>try\<close> block with its handler, which catches every \<open>Exception\<close>.\<close>

definition predict_and_report :: "classifier \<Rightarrow> (string \<times> pyval) list \<Rightarrow> event list" where
  "predict_and_report model inputs =
     (case input_array inputs input_fields of
        Inl e \<Rightarrow> [St_error (PredictionError e)]
      | Inr arr \<Rightarrow> Call_predict [arr] # report_prediction (predict model [arr]))"

text \<open>The title, the description and the form with its widgets and its button; the
  second component is \<open>input_values\<close>.\<close>

definition render_page :: "(string \<times> string) list \<Rightarrow> event list \<times> (string \<times> string) list" where
  "render_page entered =
     (let (evs, input_values) = render_categories entered input_categories []
      in ([St_title, St_markdown, St_form] @ evs @ [St_form_submit_button], input_values))"

text \<open>
  \<open>main\<close>: the result is the events of the run and the exception that left \<open>main\<close>, if
  one did. \<open>entered\<close> is what the session holds for the widgets, \<open>submitted\<close> what the
  submit button returns.
\<close>

definition main ::
  "exn + classifier \<Rightarrow> (string \<times> string) list \<Rightarrow> bool \<Rightarrow> event list \<times> exn option" where
  "main artifact entered submitted =
     (case load_model artifact of
        (evs0, Inl e) \<Rightarrow> (evs0, Some e)
      | (evs0, Inr None) \<Rightarrow> (evs0, None)
      | (evs0, Inr (Some model)) \<Rightarrow>
          if \<not> truthy model then (evs0, None)
          else
            let (evs1, input_values) = render_page entered;
                page = evs0 @ evs1
            in if submitted then
                 (case validate_all all_fields input_values \<lparr>valid_inputs = [], has_errors = False\<rparr> of
                    (evs2, Inl e) \<Rightarrow> (page @ evs2, Some e)
                  | (evs2, Inr st) \<Rightarrow>
                      if \<not> has_errors st
                      then (page @ evs2 @ predict_and_report model (valid_inputs st), None)
                      else (page @ evs2, None))
               else (page, None))"

section \<open>Observations on a run\<close>

text \<open>The messages shown with \<open>st.error\<close>, in order.\<close>

fun error_of :: "event \<Rightarrow> message option" where
  "error_of (St_error m) = Some m"
| "error_of e = None"

definition errors_of :: "event list \<Rightarrow> message list" where
  "errors_of evs = List.map_filter error_of evs"

fun is_Call_predict :: "event \<Rightarrow> bool" where
  "is_Call_predict (Call_predict X) = True"
| "is_Call_predict e = False"

fun is_validator_call :: "event \<Rightarrow> bool" where
  "is_validator_call (Call_validate_numeric_input v mn mx l) = True"
| "is_validator_call (Call_validate_categorical_input v opts l) = True"
| "is_validator_call e = False"

text \<open>The value a validator call was made with.\<close>

fun call_value :: "event \<Rightarrow> string option" where
  "call_value (Call_validate_numeric_input v mn mx l) = Some v"
| "call_value (Call_validate_categorical_input v opts l) = Some v"
| "call_value e = None"

text \<open>The events that only lay out the page.\<close>

fun is_layout :: "event \<Rightarrow> bool" where
  "is_layout St_title = True"
| "is_layout St_markdown = True"
| "is_layout St_form = True"
| "is_layout (St_subheader c) = True"
| "is_layout (St_columns n) = True"
| "is_layout (St_selectbox c l opts k) = True"
| "is_layout (St_text_input c l k) = True"
| "is_layout St_form_submit_button = True"
| "is_layout e = False"

text \<open>The events that show the outcome of the prediction step: a banner, the
  disclaimer, or the message of the exception handler.\<close>

fun is_result :: "event \<Rightarrow> bool" where
  "is_result (St_success m) = True"
| "is_result (St_warning m) = True"
| "is_result (St_error LikelyCKD) = True"
| "is_result (St_error (PredictionError e)) = True"
| "is_result e = False"

fun is_PleaseFillIn :: "message \<Rightarrow> bool" where
  "is_PleaseFillIn (PleaseFillIn l) = True"
| "is_PleaseFillIn m = False"

text \<open>What the loop body decides for one field on its own: the error it reports for the
  value, if any, and the value it stores otherwise.\<close>

definition field_error :: "field_info \<Rightarrow> string \<Rightarrow> message option" where
  "field_error info value =
     (if value = [] then Some (PleaseFillIn (label info)) else snd (snd (run_validator info value)))"

definition validated :: "field_info \<Rightarrow> string \<Rightarrow> pyval" where
  "validated info value = fst (snd (run_validator info value))"

text \<open>The events of the loop body for one field.\<close>

definition field_events :: "field_info \<Rightarrow> string \<Rightarrow> event list" where
  "field_events info value =
     fst (validate_field [] info value \<lparr>valid_inputs = [], has_errors = False\<rparr>)"

text \<open>The state of the loop after the fields of a list, given the value of each widget.\<close>

definition run_fields ::
  "(string \<Rightarrow> string) \<Rightarrow> (string \<times> field_info) list \<Rightarrow> vstate \<Rightarrow> vstate" where
  "run_fields w fl st = foldl (\<lambda>s (n, i). snd (validate_field n i (w n) s)) st fl"

text \<open>For a given content of the widgets: the events of the whole validation loop,
  whether no field has an error, and the state the loop ends in.\<close>

definition validation_events :: "(string \<times> string) list \<Rightarrow> event list" where
  "validation_events entered =
     concat (map (\<lambda>(n, i). field_events i (widget_value entered n)) all_fields)"

definition all_valid :: "(string \<times> string) list \<Rightarrow> bool" where
  "all_valid entered =
     list_all (\<lambda>(n, i). field_error i (widget_value entered n) = None) all_fields"

definition final_state :: "(string \<times> string) list \<Rightarrow> vstate" where
  "final_state entered =
     run_fields (widget_value entered) all_fields \<lparr>valid_inputs = [], has_errors = False\<rparr>"


section \<open>Example runs\<close>

text \<open>A form filled in with valid values for all 24 fields, and three classifiers: one
  that answers 1, one that answers 0 and one whose \<open>predict\<close> raises.\<close>

definition filled_form :: "(string \<times> string) list" where
  "filled_form =
   [(''age'', ''45''), (''blood_pressure'', ''80''), (''specific_gravity'', ''1.015''),
    (''albumin'', ''1''), (''sugar'', ''0''), (''red_blood_cells'', ''normal''),
    (''pus_cell'', ''normal''), (''pus_cell_clumps'', ''notpresent''),
    (''bacteria'', ''notpresent''), (''blood_glucose_random'', ''100''),
    (''blood_urea'', ''30''), (''serum_creatinine'', ''1''), (''sodium'', ''140''),
    (''potassium'', ''4.5''), (''hemoglobin'', ''14''), (''packed_cell_volume'', ''40''),
    (''white_blood_cell_count'', ''8000''), (''red_blood_cell_count'', ''5''),
    (''hypertension'', ''no''), (''diabetes_mellitus'', ''no''),
    (''coronary_artery_disease'', ''no''), (''appetite'', ''good''),
    (''pedal_edema'', ''no''), (''anemia'', ''no'')]"

definition answers_one :: classifier where
  "answers_one = \<lparr>truthy = True, predict = (\<lambda>X. Inr [Num (PyInt 1)])\<rparr>"

definition answers_zero :: classifier where
  "answers_zero = \<lparr>truthy = True, predict = (\<lambda>X. Inr [Num (PyInt 0)])\<rparr>"

definition raises :: classifier where
  "raises = \<lparr>truthy = True, predict = (\<lambda>X. Inl (OtherError ''boom''))\<rparr>"

section \<open>Numbers and the numeric validator\<close>

lemma floor_rat_numeral: "\<lfloor>numeral a / numeral b :: rat\<rfloor> = numeral a div numeral b"
  by (metis floor_divide_of_int_eq of_int_numeral)

lemma ceiling_rat_numeral:
  "\<lceil>numeral a / numeral b :: rat\<rceil> = - (- numeral a div numeral b)"
  using ceiling_divide_eq_div [of "numeral a" "numeral b", where ?'a = rat] by simp

lemmas round_eval =
  compute_floorlog pow2_def round_half_even_def floor_rat_numeral ceiling_rat_numeral

lemmas parse_eval =
  py_float_def is_digit_def strip_def py_isspace_def split_sign_def lower_def lower_char_def
  parse_decimal_def parse_exponent_def digits_val_def pow10_def Let_def

lemma float_lt_NaN_right [simp]: "float_lt x NaN = False"
  by (cases x) simp_all

lemma float_le_NaN [simp]: "float_le NaN y = False" "float_le x NaN = False"
  by (simp_all add: float_le_def)

lemma py_float_nan: "py_float ''nan'' = Some NaN"
  by code_simp

lemma float_lt_not_le: "x \<noteq> NaN \<Longrightarrow> y \<noteq> NaN \<Longrightarrow> float_lt x y \<longleftrightarrow> \<not> float_le y x"
  by (cases x; cases y) (auto simp: float_le_def)

text \<open>Away from nan the numeric validator accepts exactly the closed interval.\<close>

lemma validate_numeric_input_not_numeric:
  "py_float value = None \<Longrightarrow>
   validate_numeric_input value mn mx l = (PyNone, Some (ShouldBeNumeric l))"
  by (simp add: validate_numeric_input_def)

lemma validate_numeric_input_in_range:
  assumes "py_float value = Some v" "v \<noteq> NaN" "num_val mn \<noteq> NaN" "num_val mx \<noteq> NaN"
  shows "validate_numeric_input value mn mx l =
           (if in_closed_interval v mn mx then (Num (PyFloat v), None)
            else (PyNone, Some (ShouldBeBetween l mn mx)))"
  using assms
  by (simp add: validate_numeric_input_def num_lt_def num_gt_def in_closed_interval_def
      float_lt_not_le)

text \<open>
  C10. For all bounds \<open>min_val\<close> and \<open>max_val\<close> (and every label) the non-empty string
  \<open>nan\<close> parses as the float nan, and \<open>validate_numeric_input\<close> returns that value with no
  error, although nan lies in no closed interval: the range check rejects only a value
  that compares below \<open>min_val\<close> or above \<open>max_val\<close>, and nan does neither.
\<close>

theorem validate_numeric_input_accepts_nan:
  "''nan'' \<noteq> [] \<and> py_float ''nan'' = Some NaN \<and>
   validate_numeric_input ''nan'' min_val max_val field_name = (Num (PyFloat NaN), None) \<and>
   \<not> in_closed_interval NaN min_val max_val \<and>
   \<not> num_lt (PyFloat NaN) min_val \<and> \<not> num_gt (PyFloat NaN) max_val"
  by (simp add: py_float_nan validate_numeric_input_def num_lt_def num_gt_def
      in_closed_interval_def)

text \<open>
  C2. \<open>validate_numeric_input\<close> is to return a parsed value without an error exactly
  when the value lies in \<open>[min, max]\<close>. For the field \<open>age\<close> (bounds 0 and 120) the input
  \<open>nan\<close> parses, lies outside the interval, and is yet returned as a valid value without
  an error.
\<close>

theorem validate_numeric_input_age_nan:
  "py_float ''nan'' = Some NaN \<and> \<not> in_closed_interval NaN (PyInt 0) (PyInt 120) \<and>
   validate_numeric_input ''nan'' (PyInt 0) (PyInt 120) ''Age'' = (Num (PyFloat NaN), None)"
  by code_simp

section \<open>The schema and the encoding table\<close>

lemma all_fields_eq: "all_fields = concat (map snd input_categories)"
  by (simp add: all_fields_def input_categories_def dict_update_def)

lemma input_fields_eq:
  "input_fields =
   [''age'', ''blood_pressure'', ''specific_gravity'', ''albumin'', ''sugar'',
    ''red_blood_cells'', ''pus_cell'', ''pus_cell_clumps'', ''bacteria'',
    ''blood_glucose_random'', ''blood_urea'', ''serum_creatinine'', ''sodium'',
    ''potassium'', ''hemoglobin'', ''packed_cell_volume'', ''white_blood_cell_count'',
    ''red_blood_cell_count'', ''hypertension'', ''diabetes_mellitus'',
    ''coronary_artery_disease'', ''appetite'', ''pedal_edema'', ''anemia'']"
  by (simp add: input_fields_def input_categories_def)

lemma input_fields_all_fields: "input_fields = map fst all_fields"
  by (simp add: all_fields_eq input_fields_def input_categories_def)

lemma distinct_input_fields: "distinct input_fields"
  by (simp add: input_fields_eq)



section \<open>The categorical validator\<close>






section \<open>The encoder\<close>

lemma bij_betw_pair:
  "a \<noteq> b \<Longrightarrow> f a = y \<Longrightarrow> f b = z \<Longrightarrow> y \<noteq> z \<Longrightarrow> bij_betw f {a, b} {z, y}"
  by (auto simp: bij_betw_def)

lemma encode_input_Str:
  "map_of categorical_encodings name = Some encoding \<Longrightarrow> map_of encoding v = Some n \<Longrightarrow>
   encode_input name (Str v) = Inr (PyInt n)"
  by (simp add: encode_input_def)

lemma encode_input_pair:
  assumes "map_of categorical_encodings name = Some [(a, 1), (b, 0)]" "a \<noteq> b"
    and "map_of all_fields name = Some (Categorical [a, b] l)"
  shows "\<exists>options l. map_of all_fields name = Some (Categorical options l) \<and>
           (\<forall>v\<in>set options. \<exists>n. map_of [(a, 1), (b, 0)] v = Some n \<and>
                encode_input name (Str v) = Inr (PyInt n)) \<and>
           bij_betw (\<lambda>v. encode_input name (Str v)) (set options) {Inr (PyInt 0), Inr (PyInt 1)}"
proof -
  have a: "encode_input name (Str a) = Inr (PyInt 1)"
    using assms(1) by (simp add: encode_input_Str)
  have b: "encode_input name (Str b) = Inr (PyInt 0)"
    using assms(1,2) by (simp add: encode_input_Str)
  have "bij_betw (\<lambda>v. encode_input name (Str v)) {a, b} {Inr (PyInt 0), Inr (PyInt 1)}"
    using assms(2) a b by (intro bij_betw_pair) simp_all
  with a b assms show ?thesis by simp
qed

lemma map_of_all_fields_categorical:
  "map_of all_fields ''red_blood_cells'' = Some (Categorical [''normal'', ''abnormal''] ''Red Blood Cells'')"
  "map_of all_fields ''pus_cell'' = Some (Categorical [''normal'', ''abnormal''] ''Pus Cell'')"
  "map_of all_fields ''pus_cell_clumps'' = Some (Categorical [''present'', ''notpresent''] ''Pus Cell Clumps'')"
  "map_of all_fields ''bacteria'' = Some (Categorical [''present'', ''notpresent''] ''Bacteria'')"
  "map_of all_fields ''hypertension'' = Some (Categorical [''yes'', ''no''] ''Hypertension'')"
  "map_of all_fields ''diabetes_mellitus'' = Some (Categorical [''yes'', ''no''] ''Diabetes Mellitus'')"
  "map_of all_fields ''coronary_artery_disease'' = Some (Categorical [''yes'', ''no''] ''Coronary Artery Disease'')"
  "map_of all_fields ''appetite'' = Some (Categorical [''good'', ''poor''] ''Appetite'')"
  "map_of all_fields ''pedal_edema'' = Some (Categorical [''yes'', ''no''] ''Pedal Edema'')"
  "map_of all_fields ''anemia'' = Some (Categorical [''yes'', ''no''] ''Anemia'')"
  by (simp_all add: all_fields_eq input_categories_def)

lemma map_of_categorical_encodings:
  "map_of categorical_encodings ''red_blood_cells'' = Some [(''normal'', 1), (''abnormal'', 0)]"
  "map_of categorical_encodings ''pus_cell'' = Some [(''normal'', 1), (''abnormal'', 0)]"
  "map_of categorical_encodings ''pus_cell_clumps'' = Some [(''present'', 1), (''notpresent'', 0)]"
  "map_of categorical_encodings ''bacteria'' = Some [(''present'', 1), (''notpresent'', 0)]"
  "map_of categorical_encodings ''hypertension'' = Some [(''yes'', 1), (''no'', 0)]"
  "map_of categorical_encodings ''diabetes_mellitus'' = Some [(''yes'', 1), (''no'', 0)]"
  "map_of categorical_encodings ''coronary_artery_disease'' = Some [(''yes'', 1), (''no'', 0)]"
  "map_of categorical_encodings ''appetite'' = Some [(''good'', 1), (''poor'', 0)]"
  "map_of categorical_encodings ''pedal_edema'' = Some [(''yes'', 1), (''no'', 0)]"
  "map_of categorical_encodings ''anemia'' = Some [(''yes'', 1), (''no'', 0)]"
  by (simp_all add: categorical_encodings_def)

lemma encode_input_table_all:
  "list_all (\<lambda>(name, encoding).
      \<exists>options l. map_of all_fields name = Some (Categorical options l) \<and>
           (\<forall>v\<in>set options. \<exists>n. map_of encoding v = Some n \<and>
                encode_input name (Str v) = Inr (PyInt n)) \<and>
           bij_betw (\<lambda>v. encode_input name (Str v)) (set options) {Inr (PyInt 0), Inr (PyInt 1)})
     categorical_encodings"
  unfolding categorical_encodings_def list.pred_inject prod.case
  by (intro conjI;
      ((rule encode_input_pair, rule map_of_categorical_encodings, simp,
        rule map_of_all_fields_categorical) | simp))

lemma encode_input_table:
  assumes "(name, encoding) \<in> set categorical_encodings"
  shows "\<exists>options l. map_of all_fields name = Some (Categorical options l) \<and>
           (\<forall>v\<in>set options. \<exists>n. map_of encoding v = Some n \<and>
                encode_input name (Str v) = Inr (PyInt n)) \<and>
           bij_betw (\<lambda>v. encode_input name (Str v)) (set options) {Inr (PyInt 0), Inr (PyInt 1)}"
  using encode_input_table_all assms unfolding list_all_iff by fast

text \<open>
  C4. Every field name of the encoding table is a categorical field of the schema; for
  every option of the field \<open>encode_input\<close> returns the integer the table maps it to,
  and on the options it is a bijection onto \<open>{0, 1}\<close> (\<open>hypertension\<close>: \<open>yes\<close> gives 1, \<open>no\<close>
  gives 0). For a field name without an entry a \<open>float\<close> value is returned unchanged.
\<close>

theorem encode_input_bijection:
  "(\<forall>name encoding. map_of categorical_encodings name = Some encoding \<longrightarrow>
      (\<exists>options l. map_of all_fields name = Some (Categorical options l) \<and>
          (\<forall>v\<in>set options. \<exists>n. map_of encoding v = Some n \<and>
               encode_input name (Str v) = Inr (PyInt n)) \<and>
          bij_betw (\<lambda>v. encode_input name (Str v)) (set options)
            {Inr (PyInt 0), Inr (PyInt 1)})) \<and>
   encode_input ''hypertension'' (Str ''yes'') = Inr (PyInt 1) \<and>
   encode_input ''hypertension'' (Str ''no'') = Inr (PyInt 0) \<and>
   (\<forall>name f. map_of categorical_encodings name = None \<longrightarrow>
      encode_input name (Num (PyFloat f)) = Inr (PyFloat f))"
proof (intro conjI allI impI)
  fix name encoding assume "map_of categorical_encodings name = Some encoding"
  then have "(name, encoding) \<in> set categorical_encodings" by (rule map_of_SomeD)
  then show "\<exists>options l. map_of all_fields name = Some (Categorical options l) \<and>
          (\<forall>v\<in>set options. \<exists>n. map_of encoding v = Some n \<and>
               encode_input name (Str v) = Inr (PyInt n)) \<and>
          bij_betw (\<lambda>v. encode_input name (Str v)) (set options)
            {Inr (PyInt 0), Inr (PyInt 1)}"
    by (rule encode_input_table)
next
  show "encode_input ''hypertension'' (Str ''yes'') = Inr (PyInt 1)"
    by (simp add: encode_input_Str [OF map_of_categorical_encodings(5)])
  show "encode_input ''hypertension'' (Str ''no'') = Inr (PyInt 0)"
    by (simp add: encode_input_Str [OF map_of_categorical_encodings(5)])
next
  fix name f assume "map_of categorical_encodings name = None"
  then show "encode_input name (Num (PyFloat f)) = Inr (PyFloat f)"
    by (simp add: encode_input_def py_float_of_def)
qed

text \<open>The table entry of \<open>hypertension\<close> and the numeric field \<open>age\<close>.\<close>

theorem encode_input_bijection_witness:
  "map_of categorical_encodings ''hypertension'' = Some [(''yes'', 1), (''no'', 0)] \<and>
   (\<exists>options l. map_of all_fields ''hypertension'' = Some (Categorical options l) \<and>
      bij_betw (\<lambda>v. encode_input ''hypertension'' (Str v)) (set options)
        {Inr (PyInt 0), Inr (PyInt 1)}) \<and>
   map_of categorical_encodings ''age'' = None \<and>
   encode_input ''age'' (Num (PyFloat (Fin 45))) = Inr (PyFloat (Fin 45))"
proof -
  have age: "map_of categorical_encodings ''age'' = None"
    by (simp add: categorical_encodings_def)
  from encode_input_bijection map_of_categorical_encodings(5) age
  show ?thesis by blast
qed

section \<open>The page\<close>

lemma render_fields_layout: "list_all is_layout (fst (render_fields entered fl c iv))"
  by (induction fl arbitrary: c iv) (auto simp: case_prod_beta Let_def split: field_info.split)

lemma render_categories_layout: "list_all is_layout (fst (render_categories entered cats iv))"
  by (induction cats arbitrary: iv) (auto simp: case_prod_beta Let_def render_fields_layout)

lemma render_page_layout: "list_all is_layout (fst (render_page entered))"
  by (simp add: render_page_def case_prod_beta Let_def render_categories_layout)

lemma input_values_eq:
  "snd (render_page entered) = map (\<lambda>(n, i). (n, widget_value entered n)) all_fields"
  by (simp add: render_page_def all_fields_eq input_categories_def case_prod_beta Let_def)


section \<open>The validation loop\<close>

lemma validate_field_events [simp]: "fst (validate_field n i v st) = field_events i v"
  by (simp add: validate_field_def field_events_def case_prod_beta Let_def split: option.split)

lemma validate_field_has_errors [simp]:
  "has_errors (snd (validate_field n i v st)) \<longleftrightarrow> has_errors st \<or> field_error i v \<noteq> None"
  by (auto simp add: validate_field_def field_error_def case_prod_beta Let_def split: option.split)

lemma validate_field_valid_inputs [simp]:
  "valid_inputs (snd (validate_field n i v st)) =
     (if field_error i v = None then dict_set (valid_inputs st) n (validated i v)
      else valid_inputs st)"
  by (auto simp add: validate_field_def field_error_def validated_def case_prod_beta Let_def
      split: option.split)

lemma errors_of_append [simp]: "errors_of (xs @ ys) = errors_of xs @ errors_of ys"
  by (simp add: errors_of_def map_filter_def)

lemma errors_of_Cons [simp]:
  "errors_of (e # es) = (case error_of e of None \<Rightarrow> errors_of es | Some m \<Rightarrow> m # errors_of es)"
  by (simp add: errors_of_def map_filter_def split: option.split)

lemma errors_of_Nil [simp]: "errors_of [] = []"
  by (simp add: errors_of_def map_filter_def)

lemma run_validator_call:
  "is_validator_call (fst (run_validator i v)) \<and> call_value (fst (run_validator i v)) = Some v \<and>
   error_of (fst (run_validator i v)) = None \<and> \<not> is_Call_predict (fst (run_validator i v))"
  by (cases i) (simp_all add: run_validator_def)

lemma field_events_eq:
  "field_events i v =
     (if v = [] then [St_error (PleaseFillIn (label i))]
      else case field_error i v of
             None \<Rightarrow> [fst (run_validator i v)]
           | Some m \<Rightarrow> [fst (run_validator i v), St_error m])"
  by (simp add: field_events_def validate_field_def field_error_def case_prod_beta Let_def
      split: option.split)

lemma errors_of_field_events:
  "errors_of (field_events i v) = (case field_error i v of None \<Rightarrow> [] | Some m \<Rightarrow> [m])"
  by (simp add: field_events_eq run_validator_call field_error_def split: option.split)

lemma field_events_no_predict: "e \<in> set (field_events i v) \<Longrightarrow> \<not> is_Call_predict e"
  by (auto simp add: field_events_eq run_validator_call split: option.splits if_splits)

lemma field_events_call_value: "e \<in> set (field_events i v) \<Longrightarrow> call_value e \<noteq> Some []"
  by (auto simp add: field_events_eq run_validator_call split: option.splits if_splits)

lemma run_fields_Cons [simp]:
  "run_fields w ((n, i) # fl) st = run_fields w fl (snd (validate_field n i (w n) st))"
  by (simp add: run_fields_def)

lemma run_fields_Nil [simp]: "run_fields w [] st = st"
  by (simp add: run_fields_def)

lemma validate_all_schema:
  assumes "distinct (map fst fd)" "set fl \<subseteq> set fd"
  shows "validate_all fd (map (\<lambda>(n, i). (n, w n)) fl) st =
           (concat (map (\<lambda>(n, i). field_events i (w n)) fl), Inr (run_fields w fl st))"
  using assms(2)
proof (induction fl arbitrary: st)
  case Nil
  show ?case by simp
next
  case (Cons f fl)
  obtain n i where f: "f = (n, i)" by (cases f)
  with Cons.prems have "(n, i) \<in> set fd" by simp
  with assms(1) have "map_of fd n = Some i" by simp
  then have get: "dict_get fd n = Inr i" by (simp add: dict_get_def)
  from Cons.prems have "set fl \<subseteq> set fd" by simp
  from Cons.IH [OF this, of "snd (validate_field n i (w n) st)"]
  show ?case
    by (simp add: f get case_prod_beta Let_def)
qed

lemma run_fields_has_errors:
  "has_errors (run_fields w fl st) \<longleftrightarrow>
     has_errors st \<or> \<not> list_all (\<lambda>(n, i). field_error i (w n) = None) fl"
proof (induction fl arbitrary: st)
  case Nil
  show ?case by simp
next
  case (Cons f fl)
  obtain n i where f: "f = (n, i)" by (cases f)
  show ?case
    unfolding f run_fields_Cons Cons.IH by simp
qed


lemma map_of_dict_set: "map_of (dict_set d k v) = (map_of d)(k \<mapsto> v)"
  by (induction d) (auto simp: fun_eq_iff)

lemma run_fields_lookup_other:
  "n \<notin> fst ` set fl \<Longrightarrow>
   map_of (valid_inputs (run_fields w fl st)) n = map_of (valid_inputs st) n"
proof (induction fl arbitrary: st)
  case Nil
  show ?case by simp
next
  case (Cons f fl)
  obtain n' i' where f: "f = (n', i')" by (cases f)
  from Cons.prems have neq: "n' \<noteq> n" and rest: "n \<notin> fst ` set fl"
    by (auto simp: f)
  have "map_of (valid_inputs (run_fields w (f # fl) st)) n =
        map_of (valid_inputs (snd (validate_field n' i' (w n') st))) n"
    unfolding f run_fields_Cons by (rule Cons.IH [OF rest])
  also have "\<dots> = map_of (valid_inputs st) n"
    using neq by (simp add: map_of_dict_set)
  finally show ?case .
qed

lemma run_fields_lookup:
  assumes "distinct (map fst fl)" "list_all (\<lambda>(n, i). field_error i (w n) = None) fl"
    and "(n, i) \<in> set fl"
  shows "map_of (valid_inputs (run_fields w fl st)) n = Some (validated i (w n))"
  using assms
proof (induction fl arbitrary: st)
  case Nil
  then show ?case by simp
next
  case (Cons f fl)
  obtain n' i' where f: "f = (n', i')" by (cases f)
  from Cons.prems(1) have fresh: "n' \<notin> fst ` set fl" and dist: "distinct (map fst fl)"
    by (simp_all add: f)
  from Cons.prems(2) have ok: "field_error i' (w n') = None"
    and rest: "list_all (\<lambda>(n, i). field_error i (w n) = None) fl"
    by (simp_all add: f)
  show ?case
  proof (cases "(n, i) = (n', i')")
    case True
    then have "map_of (valid_inputs (run_fields w (f # fl) st)) n =
        map_of (valid_inputs (snd (validate_field n' i' (w n') st))) n'"
      unfolding f run_fields_Cons using run_fields_lookup_other [OF fresh] by simp
    also have "\<dots> = Some (validated i' (w n'))"
      using ok by (simp add: map_of_dict_set)
    finally show ?thesis using True by simp
  next
    case False
    with Cons.prems(3) have "(n, i) \<in> set fl" by (auto simp: f)
    from Cons.IH [OF dist rest this] show ?thesis
      unfolding f run_fields_Cons .
  qed
qed


section \<open>The input of the model\<close>

lemma input_array_Inr:
  "input_array vi fs = Inr arr \<Longrightarrow>
   length arr = length fs \<and>
   (\<forall>k<length fs. \<exists>v. map_of vi (fs ! k) = Some v \<and> encode_input (fs ! k) v = Inr (arr ! k))"
proof (induction fs arbitrary: arr)
  case Nil
  then show ?case by simp
next
  case (Cons f fs)
  from Cons.prems obtain v x xs where v: "map_of vi f = Some v"
    and x: "encode_input f v = Inr x" and xs: "input_array vi fs = Inr xs" and arr: "arr = x # xs"
    by (auto simp: dict_get_def split: option.splits sum.splits)
  from Cons.IH [OF xs] have len: "length xs = length fs"
    and nth: "\<And>k. k < length fs \<Longrightarrow>
       \<exists>v. map_of vi (fs ! k) = Some v \<and> encode_input (fs ! k) v = Inr (xs ! k)"
    by simp_all
  show ?case
  proof (intro conjI allI impI)
    show "length arr = length (f # fs)" by (simp add: arr len)
  next
    fix k assume "k < length (f # fs)"
    then show "\<exists>v. map_of vi ((f # fs) ! k) = Some v \<and>
                  encode_input ((f # fs) ! k) v = Inr (arr ! k)"
      using v x nth by (cases k) (simp_all add: arr)
  qed
qed

lemma input_array_total:
  "(\<And>f. f \<in> set fs \<Longrightarrow> \<exists>v x. map_of vi f = Some v \<and> encode_input f v = Inr x) \<Longrightarrow>
   \<exists>arr. input_array vi fs = Inr arr"
proof (induction fs)
  case Nil
  show ?case by simp
next
  case (Cons f fs)
  from Cons.prems [of f] obtain v x where "map_of vi f = Some v" "encode_input f v = Inr x"
    by auto
  moreover from Cons.IH Cons.prems obtain xs where "input_array vi fs = Inr xs"
    by auto
  ultimately show ?case by (simp add: dict_get_def)
qed

lemma input_array_cong:
  "map_of vi = map_of vi' \<Longrightarrow> input_array vi fs = input_array vi' fs"
  by (induction fs) (simp_all add: dict_get_def cong: sum.case_cong option.case_cong)

lemma schema_encodings:
  "list_all (\<lambda>(n, i).
      case i of
        Numeric mn mx l \<Rightarrow> map_of categorical_encodings n = None
      | Categorical opts l \<Rightarrow> list_all (\<lambda>s. \<exists>k. encode_input n (Str s) = Inr (PyInt k)) opts)
     all_fields"
  by (simp add: all_fields_eq input_categories_def encode_input_def categorical_encodings_def)


section \<open>A run of main\<close>

lemma distinct_all_fields: "distinct (map fst all_fields)"
  using distinct_input_fields by (simp add: input_fields_all_fields)

lemma validated_numeric:
  "field_error (Numeric mn mx l) v = None \<Longrightarrow>
   \<exists>f. py_float v = Some f \<and> validated (Numeric mn mx l) v = Num (PyFloat f)"
  by (auto simp: field_error_def validated_def run_validator_def validate_numeric_input_def
      split: if_splits option.splits)

lemma validated_categorical:
  "field_error (Categorical opts l) v = None \<Longrightarrow>
   lower v \<in> set opts \<and> validated (Categorical opts l) v = Str (lower v)"
  by (auto simp: field_error_def validated_def run_validator_def validate_categorical_input_def
      split: if_splits)

lemma encoded_ok:
  assumes "(n, i) \<in> set all_fields" "field_error i v = None"
  shows "\<exists>x. encode_input n (validated i v) = Inr x"
proof (cases i)
  case (Numeric mn mx l)
  with assms(1) schema_encodings have "map_of categorical_encodings n = None"
    by (auto simp: list_all_iff)
  moreover from assms(2) obtain f where "validated i v = Num (PyFloat f)"
    unfolding Numeric using validated_numeric by blast
  ultimately show ?thesis
    by (simp add: encode_input_def py_float_of_def)
next
  case (Categorical opts l)
  from assms(2) have "lower v \<in> set opts" "validated i v = Str (lower v)"
    unfolding Categorical using validated_categorical by blast+
  moreover from assms(1) schema_encodings
  have "\<forall>s\<in>set opts. \<exists>k. encode_input n (Str s) = Inr (PyInt k)"
    by (auto simp: list_all_iff Categorical)
  ultimately show ?thesis by auto
qed

lemma final_state_has_errors: "has_errors (final_state entered) \<longleftrightarrow> \<not> all_valid entered"
  by (simp add: final_state_def all_valid_def run_fields_has_errors)

lemma final_state_lookup:
  "all_valid entered \<Longrightarrow> (n, i) \<in> set all_fields \<Longrightarrow>
   map_of (valid_inputs (final_state entered)) n = Some (validated i (widget_value entered n))"
  unfolding final_state_def all_valid_def
  by (rule run_fields_lookup [OF distinct_all_fields])

lemma input_array_valid:
  assumes "all_valid entered"
  shows "\<exists>arr. input_array (valid_inputs (final_state entered)) input_fields = Inr arr"
proof (rule input_array_total)
  fix f assume "f \<in> set input_fields"
  then obtain i where fi: "(f, i) \<in> set all_fields"
    by (auto simp: input_fields_all_fields)
  from assms fi have "field_error i (widget_value entered f) = None"
    by (auto simp: all_valid_def list_all_iff)
  from encoded_ok [OF fi this] final_state_lookup [OF assms fi]
  show "\<exists>v x. map_of (valid_inputs (final_state entered)) f = Some v \<and> encode_input f v = Inr x"
    by auto
qed

lemma validate_all_main:
  "validate_all all_fields (snd (render_page entered)) \<lparr>valid_inputs = [], has_errors = False\<rparr> =
     (validation_events entered, Inr (final_state entered))"
  unfolding input_values_eq validation_events_def final_state_def
  by (rule validate_all_schema [OF distinct_all_fields subset_refl])

lemma main_submitted:
  "truthy m \<Longrightarrow>
   main (Inr m) entered True =
     (fst (render_page entered) @ validation_events entered @
        (if all_valid entered then predict_and_report m (valid_inputs (final_state entered))
         else []), None)"
  by (simp add: main_def load_model_def case_prod_beta Let_def validate_all_main
      final_state_has_errors)

lemma main_not_submitted:
  "truthy m \<Longrightarrow> main (Inr m) entered False = (fst (render_page entered), None)"
  by (simp add: main_def load_model_def case_prod_beta Let_def)

lemma main_falsy:
  "\<not> truthy m \<Longrightarrow> main (Inr m) entered submitted = ([], None)"
  by (simp add: main_def load_model_def)

lemma validation_events_no_predict:
  "e \<in> set (validation_events entered) \<Longrightarrow> \<not> is_Call_predict e"
  by (auto simp: validation_events_def dest: field_events_no_predict)

section \<open>Evaluation of the example form\<close>

lemma float_literals:
  "float_literal (201 / 200) = PyFloat (Fin (1131529406376837 / 1125899906842624))"
  "float_literal (41 / 40) = PyFloat (Fin (2308094809027379 / 2251799813685248))"
  "float_literal (2 / 5) = PyFloat (Fin (3602879701896397 / 9007199254740992))"
  "float_literal (5 / 2) = PyFloat (Fin (5 / 2))"
  "float_literal (7 / 2) = PyFloat (Fin (7 / 2))"
  "float_literal (35 / 2) = PyFloat (Fin (35 / 2))"
  unfolding float_literal_def round_binary64_def Let_def ilog2_def
  by (simp_all add: round_eval)

lemma py_float_examples:
  "py_float ''45'' = Some (Fin 45)"
  "py_float ''80'' = Some (Fin 80)"
  "py_float ''1.015'' = Some (Fin (4571153621781053 / 4503599627370496))"
  "py_float ''1'' = Some (Fin 1)"
  "py_float ''0'' = Some (Fin 0)"
  "py_float ''100'' = Some (Fin 100)"
  "py_float ''30'' = Some (Fin 30)"
  "py_float ''140'' = Some (Fin 140)"
  "py_float ''4.5'' = Some (Fin (9 / 2))"
  "py_float ''14'' = Some (Fin 14)"
  "py_float ''40'' = Some (Fin 40)"
  "py_float ''8000'' = Some (Fin 8000)"
  "py_float ''5'' = Some (Fin 5)"
  "py_float ''300'' = Some (Fin 300)"
  "py_float ''120'' = Some (Fin 120)"
  "py_float ''121'' = Some (Fin 121)"
  "py_float ''-1'' = Some (Fin (- 1))"
  unfolding py_float_def round_binary64_def Let_def ilog2_def
  by (simp_all add: parse_eval round_eval)


lemma all_valid_filled_form: "all_valid filled_form"
  by (simp add: all_valid_def all_fields_eq input_categories_def filled_form_def
      widget_value_def field_error_def run_validator_def validate_numeric_input_def
      validate_categorical_input_def py_float_examples float_literals num_lt_def num_gt_def
      lower_def lower_char_def)

section \<open>Properties of the events of a run\<close>

lemma layout_props:
  "is_layout e \<Longrightarrow>
   error_of e = None \<and> \<not> is_Call_predict e \<and> \<not> is_validator_call e \<and> call_value e = None \<and>
   \<not> is_result e"
  by (cases e) simp_all

lemma errors_of_layout: "list_all is_layout evs \<Longrightarrow> errors_of evs = []"
  by (induction evs) (simp_all add: layout_props)

lemma errors_of_concat: "errors_of (concat xss) = concat (map errors_of xss)"
  by (induction xss) simp_all

lemma map_filter_concat:
  "List.map_filter g xs = concat (map (\<lambda>x. case g x of None \<Rightarrow> [] | Some y \<Rightarrow> [y]) xs)"
  by (induction xs) (simp_all add: map_filter_simps split: option.split)

lemma errors_of_validation_events:
  "errors_of (validation_events entered) =
     List.map_filter (\<lambda>(n, i). field_error i (widget_value entered n)) all_fields"
  by (simp add: validation_events_def errors_of_concat map_filter_concat comp_def
      case_prod_beta errors_of_field_events)

lemma report_prediction_props:
  "e \<in> set (report_prediction outcome) \<Longrightarrow>
   \<not> is_Call_predict e \<and> \<not> is_validator_call e \<and> call_value e = None \<and> is_result e \<and>
   (\<forall>m. error_of e = Some m \<longrightarrow> \<not> is_PleaseFillIn m)"
  by (auto simp: report_prediction_def split: sum.splits list.splits if_splits)

lemma validator_message:
  "snd (snd (run_validator i v)) = Some m \<Longrightarrow> \<not> is_PleaseFillIn m \<and> \<not> is_result (St_error m)"
  by (cases i)
    (auto simp: run_validator_def validate_numeric_input_def validate_categorical_input_def
      split: option.splits if_splits)

lemma field_events_count:
  "length (filter is_validator_call (field_events i v)) +
   length (filter is_PleaseFillIn (errors_of (field_events i v))) = 1"
  using validator_message [of i v]
  by (auto simp: field_events_eq run_validator_call field_error_def split: option.splits)

lemma field_events_no_result: "e \<in> set (field_events i v) \<Longrightarrow> \<not> is_result e"
  using validator_message [of i v] run_validator_call [of i v]
  by (cases "fst (run_validator i v)")
    (auto simp: field_events_eq field_error_def split: option.splits if_splits)

section \<open>Loading the model and the prediction step\<close>

lemma main_load_error:
  "main (Inl e) entered submitted =
     (if e = FileNotFoundError then ([St_error ModelFileNotFound], None) else ([], Some e))"
  by (simp add: main_def load_model_def)

lemma predict_and_report_valid:
  assumes "all_valid entered"
  obtains arr where
    "input_array (valid_inputs (final_state entered)) input_fields = Inr arr"
    "predict_and_report m (valid_inputs (final_state entered)) =
       Call_predict [arr] # report_prediction (predict m [arr])"
proof -
  from input_array_valid [OF assms] obtain arr
    where "input_array (valid_inputs (final_state entered)) input_fields = Inr arr" ..
  then show thesis
    by (intro that [of arr]) (simp_all add: predict_and_report_def)
qed

lemma page_props:
  "e \<in> set (fst (render_page entered)) \<Longrightarrow> is_layout e"
  using render_page_layout [of entered] by (simp add: list_all_iff)

lemma validation_events_props:
  assumes "e \<in> set (validation_events entered)"
  shows "\<not> is_Call_predict e" "\<not> is_result e" "call_value e \<noteq> Some []"
  using assms field_events_no_predict field_events_no_result field_events_call_value
  by (auto simp: validation_events_def)

text \<open>The runs in which \<open>predict\<close> is called.\<close>

lemma predict_calledD:
  assumes "Call_predict X \<in> set (fst (main artifact entered submitted))"
  obtains m arr where "artifact = Inr m" "truthy m" "submitted" "all_valid entered"
    "X = [arr]" "input_array (valid_inputs (final_state entered)) input_fields = Inr arr"
    "fst (main artifact entered submitted) =
       fst (render_page entered) @ validation_events entered @
       Call_predict [arr] # report_prediction (predict m [arr])"
proof (cases artifact)
  case (Inl e)
  with assms show thesis by (simp add: main_load_error split: if_splits)
next
  case (Inr m)
  show thesis
  proof (cases "truthy m")
    case False
    with assms Inr show thesis by (simp add: main_falsy)
  next
    case True
    note truthy = this
    show thesis
    proof (cases submitted)
      case False
      with assms Inr truthy have "Call_predict X \<in> set (fst (render_page entered))"
        by (simp add: main_not_submitted)
      from page_props [OF this] show thesis by simp
    next
      case True
      note submitted = this
      show thesis
      proof (cases "all_valid entered")
        case False
        with assms Inr truthy submitted
        have "Call_predict X \<in> set (fst (render_page entered)) \<or>
              Call_predict X \<in> set (validation_events entered)"
          by (simp add: main_submitted)
        then show thesis
          using page_props [of "Call_predict X" entered]
            validation_events_props(1) [of "Call_predict X" entered] by auto
      next
        case True
        from predict_and_report_valid [OF True, of m] obtain arr where
          arr: "input_array (valid_inputs (final_state entered)) input_fields = Inr arr"
          and rep: "predict_and_report m (valid_inputs (final_state entered)) =
            Call_predict [arr] # report_prediction (predict m [arr])" by blast
        have trace: "fst (main artifact entered submitted) =
            fst (render_page entered) @ validation_events entered @
            Call_predict [arr] # report_prediction (predict m [arr])"
          using Inr truthy submitted True rep by (simp add: main_submitted)
        from assms have "X = [arr]"
          unfolding trace
          using page_props [of "Call_predict X" entered]
            validation_events_props(1) [of "Call_predict X" entered]
            report_prediction_props [of "Call_predict X" "predict m [arr]"]
          by auto
        with Inr truthy submitted True arr trace show thesis
          by (intro that [of m arr]) simp_all
      qed
    qed
  qed
qed

lemma main_no_exception: "snd (main (Inr m) entered submitted) = None"
  by (cases "truthy m"; cases submitted)
    (simp_all add: main_submitted main_not_submitted main_falsy)


lemma predict_called:
  assumes "truthy m" "all_valid entered"
  shows "\<exists>arr. Call_predict [arr] \<in> set (fst (main (Inr m) entered True))"
proof -
  from predict_and_report_valid [OF assms(2), of m] obtain arr where
    "predict_and_report m (valid_inputs (final_state entered)) =
       Call_predict [arr] # report_prediction (predict m [arr])" by blast
  with assms have "Call_predict [arr] \<in> set (fst (main (Inr m) entered True))"
    by (simp add: main_submitted)
  then show ?thesis ..
qed

lemma is_Call_predictI: "Call_predict X \<in> set evs \<Longrightarrow> list_ex is_Call_predict evs"
  unfolding list_ex_iff by (rule bexI [of _ "Call_predict X"]) simp_all

lemma filter_result_page: "filter is_result (fst (render_page entered)) = []"
  using page_props [of _ entered] by (auto simp: filter_empty_conv layout_props)

lemma filter_result_validation: "filter is_result (validation_events entered) = []"
  using validation_events_props(2) [of _ entered] by (auto simp: filter_empty_conv)

lemma filter_result_report: "filter is_result (report_prediction outcome) = report_prediction outcome"
  using report_prediction_props [of _ outcome] by (auto simp: filter_id_conv)

lemma report_prediction_nonempty: "report_prediction outcome \<noteq> []"
  by (simp add: report_prediction_def split: sum.split list.split)

lemma results_of_run:
  assumes "Call_predict X \<in> set (fst (main (Inr m) entered submitted))"
  shows "filter is_result (fst (main (Inr m) entered submitted)) = report_prediction (predict m X)"
    and "last (fst (main (Inr m) entered submitted)) = last (report_prediction (predict m X))"
proof -
  from predict_calledD [OF assms] obtain m' arr where m: "Inr m = (Inr m' :: exn + classifier)"
    and X: "X = [arr]"
    and trace: "fst (main (Inr m) entered submitted) =
       fst (render_page entered) @ validation_events entered @
       Call_predict [arr] # report_prediction (predict m' [arr])"
    by metis
  from m have m': "m' = m" by simp
  show "filter is_result (fst (main (Inr m) entered submitted)) = report_prediction (predict m X)"
    unfolding trace X m'
    by (simp add: filter_result_page filter_result_validation filter_result_report)
  show "last (fst (main (Inr m) entered submitted)) = last (report_prediction (predict m X))"
    unfolding trace X m' by (simp add: report_prediction_nonempty)
qed

text \<open>
  C7. When the model file is absent, \<open>load_model\<close> shows the "model file not found" error
  and returns \<open>None\<close>, and \<open>main\<close> returns at once: the error is the only event of the
  run, so nothing of the page (title, form, widgets, button) is rendered, \<open>predict\<close> is
  not called, and no exception leaves \<open>main\<close>.
\<close>

theorem model_file_missing:
  "main (Inl FileNotFoundError) entered submitted = ([St_error ModelFileNotFound], None) \<and>
   \<not> list_ex is_layout (fst (main (Inl FileNotFoundError) entered submitted)) \<and>
   \<not> list_ex is_Call_predict (fst (main (Inl FileNotFoundError) entered submitted)) \<and>
   snd (main (Inl FileNotFoundError) entered submitted) = None"
  by (simp add: main_load_error)

text \<open>With the model file absent and the filled form submitted, the form is not rendered.\<close>

theorem model_file_missing_form_not_rendered:
  "St_form \<notin> set (fst (main (Inl FileNotFoundError) filled_form True)) \<and>
   \<not> list_ex is_layout (fst (main (Inl FileNotFoundError) filled_form True))"
  by (simp add: main_load_error)

text \<open>
  C8. Whatever \<open>predict\<close> does, no exception leaves \<open>main\<close> once the model is loaded; and
  when the call of \<open>predict\<close> raises \<open>e\<close>, the only outcome shown is the "error occurred
  during prediction" message for \<open>e\<close>, which is the last event of the run.
\<close>

theorem prediction_failure_caught:
  "snd (main (Inr m) entered submitted) = None \<and>
   (\<forall>X e. Call_predict X \<in> set (fst (main (Inr m) entered submitted)) \<longrightarrow>
      predict m X = Inl e \<longrightarrow>
      filter is_result (fst (main (Inr m) entered submitted)) = [St_error (PredictionError e)] \<and>
      last (fst (main (Inr m) entered submitted)) = St_error (PredictionError e))"
proof (intro conjI allI impI)
  show "snd (main (Inr m) entered submitted) = None" by (rule main_no_exception)
next
  fix X e
  assume called: "Call_predict X \<in> set (fst (main (Inr m) entered submitted))"
    and raised: "predict m X = Inl e"
  show "filter is_result (fst (main (Inr m) entered submitted)) = [St_error (PredictionError e)]"
    and "last (fst (main (Inr m) entered submitted)) = St_error (PredictionError e)"
    unfolding results_of_run [OF called] raised by (simp_all add: report_prediction_def)
qed

text \<open>The filled form with a classifier whose \<open>predict\<close> raises.\<close>

theorem prediction_failure_caught_witness:
  "list_ex is_Call_predict (fst (main (Inr raises) filled_form True)) \<and>
   snd (main (Inr raises) filled_form True) = None \<and>
   filter is_result (fst (main (Inr raises) filled_form True)) =
     [St_error (PredictionError (OtherError ''boom''))] \<and>
   last (fst (main (Inr raises) filled_form True)) =
     St_error (PredictionError (OtherError ''boom''))"
proof -
  have "truthy raises" by (simp add: raises_def)
  from predict_called [OF this all_valid_filled_form] obtain arr
    where called: "Call_predict [arr] \<in> set (fst (main (Inr raises) filled_form True))" ..
  have raised: "predict raises [arr] = Inl (OtherError ''boom'')" by (simp add: raises_def)
  note spec = prediction_failure_caught [of raises filled_form True]
  from spec have "snd (main (Inr raises) filled_form True) = None" by (rule conjunct1)
  moreover from spec [THEN conjunct2, rule_format, OF called raised]
  have "filter is_result (fst (main (Inr raises) filled_form True)) =
     [St_error (PredictionError (OtherError ''boom''))] \<and>
   last (fst (main (Inr raises) filled_form True)) =
     St_error (PredictionError (OtherError ''boom''))" .
  ultimately show ?thesis using is_Call_predictI [OF called] by simp
qed

text \<open>
  C9. When \<open>predict\<close> returns its labels, the outcome shown is the "NOT likely" banner if
  the first label equals 1 (the \<open>int\<close> 1 or the \<open>float\<close> 1.0) and the "likely" banner for
  every other label; the disclaimer follows in both cases, and nothing else is shown.
\<close>

theorem prediction_banner:
  "(\<forall>X p rest. Call_predict X \<in> set (fst (main (Inr m) entered submitted)) \<longrightarrow>
      predict m X = Inr (p # rest) \<longrightarrow>
      filter is_result (fst (main (Inr m) entered submitted)) =
        (if equals_one p then [St_success NotLikelyCKD, St_warning Disclaimer]
         else [St_error LikelyCKD, St_warning Disclaimer])) \<and>
   (\<forall>p. equals_one p \<longleftrightarrow> p = Num (PyInt 1) \<or> p = Num (PyFloat (Fin 1)))"
proof (intro conjI allI impI)
  fix X p rest
  assume called: "Call_predict X \<in> set (fst (main (Inr m) entered submitted))"
    and returned: "predict m X = Inr (p # rest)"
  show "filter is_result (fst (main (Inr m) entered submitted)) =
        (if equals_one p then [St_success NotLikelyCKD, St_warning Disclaimer]
         else [St_error LikelyCKD, St_warning Disclaimer])"
    unfolding results_of_run [OF called] returned by (simp add: report_prediction_def)
next
  fix p
  show "equals_one p \<longleftrightarrow> p = Num (PyInt 1) \<or> p = Num (PyFloat (Fin 1))"
  proof (cases p)
    case (Num n)
    then show ?thesis by (cases n) auto
  qed simp_all
qed

text \<open>The filled form with a classifier that answers 1 and with one that answers 0.\<close>

theorem prediction_banner_witness:
  "list_ex is_Call_predict (fst (main (Inr answers_one) filled_form True)) \<and>
   filter is_result (fst (main (Inr answers_one) filled_form True)) =
     [St_success NotLikelyCKD, St_warning Disclaimer] \<and>
   list_ex is_Call_predict (fst (main (Inr answers_zero) filled_form True)) \<and>
   filter is_result (fst (main (Inr answers_zero) filled_form True)) =
     [St_error LikelyCKD, St_warning Disclaimer]"
proof -
  have "truthy answers_one" "truthy answers_zero"
    by (simp_all add: answers_one_def answers_zero_def)
  from this [THEN predict_called, OF all_valid_filled_form] obtain a b
    where a: "Call_predict [a] \<in> set (fst (main (Inr answers_one) filled_form True))"
      and b: "Call_predict [b] \<in> set (fst (main (Inr answers_zero) filled_form True))"
    by blast
  have pa: "predict answers_one [a] = Inr [Num (PyInt 1)]"
    and pb: "predict answers_zero [b] = Inr [Num (PyInt 0)]"
    by (simp_all add: answers_one_def answers_zero_def)
  from prediction_banner [of answers_one filled_form True, THEN conjunct1, rule_format, OF a pa]
  have "filter is_result (fst (main (Inr answers_one) filled_form True)) =
     [St_success NotLikelyCKD, St_warning Disclaimer]"
    by simp
  moreover
  from prediction_banner [of answers_zero filled_form True, THEN conjunct1, rule_format, OF b pb]
  have "filter is_result (fst (main (Inr answers_zero) filled_form True)) =
     [St_error LikelyCKD, St_warning Disclaimer]"
    by simp
  ultimately show ?thesis using is_Call_predictI [OF a] is_Call_predictI [OF b] by simp
qed

section \<open>The validation step of a submitted form\<close>

lemma main_trace:
  assumes "truthy m"
  obtains tail arr where
    "fst (main (Inr m) entered True) =
       fst (render_page entered) @ validation_events entered @ tail"
    "tail = [] \<or> tail = Call_predict [arr] # report_prediction (predict m [arr])"
proof (cases "all_valid entered")
  case True
  from predict_and_report_valid [OF True, of m] obtain arr where
    "predict_and_report m (valid_inputs (final_state entered)) =
       Call_predict [arr] # report_prediction (predict m [arr])" by blast
  with assms True show thesis
    by (intro that [of "Call_predict [arr] # report_prediction (predict m [arr])" arr])
      (simp_all add: main_submitted)
next
  case False
  with assms show thesis
    by (intro that [of "[]"]) (simp_all add: main_submitted)
qed

lemma predict_called_iff:
  assumes "truthy m"
  shows "list_ex is_Call_predict (fst (main (Inr m) entered True)) \<longleftrightarrow> all_valid entered"
proof
  assume "list_ex is_Call_predict (fst (main (Inr m) entered True))"
  then obtain e where e: "e \<in> set (fst (main (Inr m) entered True))" "is_Call_predict e"
    by (auto simp: list_ex_iff)
  from e(2) obtain X where "e = Call_predict X" by (cases e) simp_all
  with e(1) have "Call_predict X \<in> set (fst (main (Inr m) entered True))" by simp
  then show "all_valid entered" by (rule predict_calledD)
next
  assume "all_valid entered"
  from predict_called [OF assms this] show "list_ex is_Call_predict (fst (main (Inr m) entered True))"
    by (auto intro: is_Call_predictI)
qed

lemma tail_props:
  assumes "tail = [] \<or> tail = Call_predict [arr] # report_prediction outcome"
  shows "filter is_validator_call tail = []"
    and "filter is_PleaseFillIn (errors_of tail) = []"
    and "takeWhile (\<lambda>e. \<not> is_Call_predict e) tail = []"
    and "\<And>e. e \<in> set tail \<Longrightarrow> call_value e \<noteq> Some []"
proof -
  have rep: "filter is_validator_call (report_prediction outcome) = []"
    "filter is_PleaseFillIn (errors_of (report_prediction outcome)) = []"
    by (simp_all add: report_prediction_def split: sum.split list.split)
  from assms rep show "filter is_validator_call tail = []"
    and "filter is_PleaseFillIn (errors_of tail) = []"
    and "takeWhile (\<lambda>e. \<not> is_Call_predict e) tail = []"
    by auto
  fix e assume "e \<in> set tail"
  with assms show "call_value e \<noteq> Some []"
    using report_prediction_props [of e outcome] by auto
qed

lemma page_filters:
  "filter is_validator_call (fst (render_page entered)) = []"
  "errors_of (fst (render_page entered)) = []"
  using page_props [of _ entered] render_page_layout [of entered]
  by (auto simp: filter_empty_conv layout_props errors_of_layout)

lemma fields_count:
  "length (filter is_validator_call (concat (map (\<lambda>(n, i). field_events i (w n)) fl))) +
   length (filter is_PleaseFillIn (errors_of (concat (map (\<lambda>(n, i). field_events i (w n)) fl)))) =
   length fl"
proof (induction fl)
  case Nil
  show ?case by simp
next
  case (Cons f fl)
  obtain n i where f: "f = (n, i)" by (cases f)
  from Cons.IH field_events_count [of i "w n"] show ?case
    by (simp add: f)
qed

lemma validation_count:
  "length (filter is_validator_call (validation_events entered)) +
   length (filter is_PleaseFillIn (errors_of (validation_events entered))) = length all_fields"
  unfolding validation_events_def by (rule fields_count)

lemma length_all_fields: "length all_fields = 24"
  by (simp add: all_fields_eq input_categories_def)

lemma blank_errors:
  "filter is_PleaseFillIn (List.map_filter (\<lambda>(n, i). field_error i (w n)) fl) =
     map (\<lambda>(n, i). PleaseFillIn (label i)) (filter (\<lambda>(n, i). w n = []) fl)"
proof (induction fl)
  case Nil
  show ?case by (simp add: map_filter_simps)
next
  case (Cons f fl)
  obtain n i where f: "f = (n, i)" by (cases f)
  show ?case
  proof (cases "w n = []")
    case True
    with Cons.IH show ?thesis by (simp add: f map_filter_simps field_error_def)
  next
    case False
    with Cons.IH validator_message [of i "w n"] show ?thesis
      by (auto simp add: f map_filter_simps field_error_def split: option.split)
  qed
qed


lemmas form_eval =
  all_fields_eq input_categories_def filled_form_def widget_value_def field_error_def
  run_validator_def validate_numeric_input_def validate_categorical_input_def
  py_float_examples float_literals num_lt_def num_gt_def lower_def lower_char_def

lemma errors_blood_pressure_300:
  "List.map_filter
     (\<lambda>(n, i). field_error i (widget_value ((''blood_pressure'', ''300'') # filled_form) n))
     all_fields =
   [ShouldBeBetween ''Blood Pressure (mm Hg)'' (PyInt 50) (PyInt 200)]"
  by (simp add: map_filter_simps form_eval)

lemma errors_age_blank:
  "List.map_filter (\<lambda>(n, i). field_error i (widget_value ((''age'', []) # filled_form) n))
     all_fields =
   [PleaseFillIn ''Age'']"
  by (simp add: map_filter_simps form_eval)

lemma list_all_None_iff:
  "list_all (\<lambda>(n, i). g n i = None) xs \<longleftrightarrow> List.map_filter (\<lambda>(n, i). g n i) xs = []"
  by (induction xs) (auto simp: map_filter_simps split: option.splits)

lemma all_valid_iff:
  "all_valid entered \<longleftrightarrow>
   List.map_filter (\<lambda>(n, i). field_error i (widget_value entered n)) all_fields = []"
  unfolding all_valid_def by (rule list_all_None_iff)

text \<open>
  C5. On a submission (the model is loaded and the button pressed) all 24 fields are
  checked, each either by a call of its validator or by the "please fill in" message; the
  errors reported before any prediction are, in the order of the schema, exactly the
  errors of the fields taken one by one; \<open>predict\<close> is called if and only if no field
  has an error; and no exception leaves \<open>main\<close>.
\<close>

theorem all_fields_validated:
  assumes "truthy m"
  shows "snd (main (Inr m) entered True) = None \<and>
    length all_fields = 24 \<and>
    length (filter is_validator_call (fst (main (Inr m) entered True))) +
      length (filter is_PleaseFillIn (errors_of (fst (main (Inr m) entered True)))) = 24 \<and>
    errors_of (takeWhile (\<lambda>e. \<not> is_Call_predict e) (fst (main (Inr m) entered True))) =
      List.map_filter (\<lambda>(n, i). field_error i (widget_value entered n)) all_fields \<and>
    (list_ex is_Call_predict (fst (main (Inr m) entered True)) \<longleftrightarrow> all_valid entered)"
proof -
  from main_trace [OF assms, of entered] obtain tail arr where
    trace: "fst (main (Inr m) entered True) =
       fst (render_page entered) @ validation_events entered @ tail"
    and tail': "tail = [] \<or> tail = Call_predict [arr] # report_prediction (predict m [arr])"
    by blast
  note tp = tail_props [OF tail']
  have count: "length (filter is_validator_call (fst (main (Inr m) entered True))) +
      length (filter is_PleaseFillIn (errors_of (fst (main (Inr m) entered True)))) = 24"
    unfolding trace using validation_count [of entered]
    by (simp add: page_filters tp length_all_fields)
  have before: "takeWhile (\<lambda>e. \<not> is_Call_predict e) (fst (main (Inr m) entered True)) =
      fst (render_page entered) @ validation_events entered"
    unfolding trace
    using page_props [of _ entered] validation_events_props(1) [of _ entered]
    by (simp add: takeWhile_append2 layout_props tp)
  have errors: "errors_of (takeWhile (\<lambda>e. \<not> is_Call_predict e) (fst (main (Inr m) entered True))) =
      List.map_filter (\<lambda>(n, i). field_error i (widget_value entered n)) all_fields"
    unfolding before by (simp add: page_filters errors_of_validation_events)
  from count errors main_no_exception [of m entered True] length_all_fields
    predict_called_iff [OF assms, of entered]
  show ?thesis by simp
qed

text \<open>The filled form with the blood pressure replaced by 300 (the maximum is 200): one
  error, no prediction; the filled form itself: a prediction.\<close>

theorem all_fields_validated_witness:
  "truthy answers_one \<and>
   \<not> all_valid ((''blood_pressure'', ''300'') # filled_form) \<and>
   \<not> list_ex is_Call_predict
       (fst (main (Inr answers_one) ((''blood_pressure'', ''300'') # filled_form) True)) \<and>
   errors_of (takeWhile (\<lambda>e. \<not> is_Call_predict e)
       (fst (main (Inr answers_one) ((''blood_pressure'', ''300'') # filled_form) True))) =
     [ShouldBeBetween ''Blood Pressure (mm Hg)'' (PyInt 50) (PyInt 200)] \<and>
   all_valid filled_form \<and>
   list_ex is_Call_predict (fst (main (Inr answers_one) filled_form True))"
proof -
  have t: "truthy answers_one" by (simp add: answers_one_def)
  have invalid: "\<not> all_valid ((''blood_pressure'', ''300'') # filled_form)"
    unfolding all_valid_iff errors_blood_pressure_300 by simp
  from all_fields_validated [OF t, of "(''blood_pressure'', ''300'') # filled_form"]
    all_fields_validated [OF t, of filled_form] t invalid all_valid_filled_form
  show ?thesis
    unfolding errors_blood_pressure_300 by simp
qed


lemma field_events_blank: "field_events i [] = [St_error (PleaseFillIn (label i))]"
  by (simp add: field_events_eq)

lemma blank_reported:
  assumes "(n, i) \<in> set all_fields" "widget_value entered n = []"
  shows "St_error (PleaseFillIn (label i)) \<in> set (validation_events entered)"
  unfolding validation_events_def using assms
  by (auto simp: field_events_blank intro!: bexI [of _ "(n, i)"])

lemma no_empty_call:
  assumes "e \<in> set (fst (main artifact entered submitted))"
  shows "call_value e \<noteq> Some []"
proof (cases artifact)
  case (Inl x)
  with assms show ?thesis by (auto simp: main_load_error split: if_splits)
next
  case (Inr m)
  show ?thesis
  proof (cases "truthy m")
    case False
    with assms Inr show ?thesis by (simp add: main_falsy)
  next
    case True
    show ?thesis
    proof (cases submitted)
      case False
      with assms Inr True have "e \<in> set (fst (render_page entered))"
        by (simp add: main_not_submitted)
      from page_props [OF this] show ?thesis by (simp add: layout_props)
    next
      case submitted: True
      from main_trace [OF True, of entered] obtain tail arr where
        trace: "fst (main (Inr m) entered True) =
           fst (render_page entered) @ validation_events entered @ tail"
        and tail: "tail = [] \<or> tail = Call_predict [arr] # report_prediction (predict m [arr])"
        by blast
      from assms Inr submitted
      have "e \<in> set (fst (render_page entered)) \<or> e \<in> set (validation_events entered) \<or>
            e \<in> set tail"
        by (simp add: trace)
      then show ?thesis
        using page_props [of e entered] layout_props [of e]
          validation_events_props(3) [of e entered] tail_props(4) [OF tail, of e]
        by auto
    qed
  qed
qed

lemma validator_called:
  assumes "truthy m" "(n, i) \<in> set all_fields" "widget_value entered n \<noteq> []"
  shows "fst (run_validator i (widget_value entered n)) \<in> set (fst (main (Inr m) entered True))"
proof -
  from assms(3) have "fst (run_validator i (widget_value entered n))
      \<in> set (field_events i (widget_value entered n))"
    by (simp add: field_events_eq split: option.split)
  with assms(2) have "fst (run_validator i (widget_value entered n))
      \<in> set (validation_events entered)"
    unfolding validation_events_def by (auto intro!: bexI [of _ "(n, i)"])
  moreover from main_trace [OF assms(1), of entered] obtain tail where
    "fst (main (Inr m) entered True) =
       fst (render_page entered) @ validation_events entered @ tail"
    by blast
  ultimately show ?thesis by simp
qed

text \<open>
  C6. On a submission every field whose widget returned the empty string gets the
  "please fill in" error with its label, the "please fill in" errors of the run are
  exactly these, one for each such field in the order of the schema, and with any field
  empty \<open>predict\<close> is not called. In no run at all is a validator called with the empty
  string. This holds for the empty string only, the one string that \<open>not value\<close> holds
  for: an input of spaces alone is blank too, but it goes to the validator.
\<close>

theorem empty_fields_reported:
  "(truthy m \<longrightarrow>
      (\<forall>(n, i)\<in>set all_fields. widget_value entered n = [] \<longrightarrow>
          St_error (PleaseFillIn (label i)) \<in> set (fst (main (Inr m) entered True))) \<and>
      filter is_PleaseFillIn (errors_of (fst (main (Inr m) entered True))) =
        map (\<lambda>(n, i). PleaseFillIn (label i))
          (filter (\<lambda>(n, i). widget_value entered n = []) all_fields) \<and>
      ((\<exists>(n, i)\<in>set all_fields. widget_value entered n = []) \<longrightarrow>
          \<not> list_ex is_Call_predict (fst (main (Inr m) entered True)))) \<and>
   (\<forall>e\<in>set (fst (main artifact entered submitted)). call_value e \<noteq> Some [])"
proof (intro conjI impI ballI)
  fix e assume "e \<in> set (fst (main artifact entered submitted))"
  then show "call_value e \<noteq> Some []" by (rule no_empty_call)
next
  assume t: "truthy m"
  from main_trace [OF t, of entered] obtain tail arr where
    trace: "fst (main (Inr m) entered True) =
       fst (render_page entered) @ validation_events entered @ tail"
    and tail: "tail = [] \<or> tail = Call_predict [arr] # report_prediction (predict m [arr])"
    by blast
  show "filter is_PleaseFillIn (errors_of (fst (main (Inr m) entered True))) =
        map (\<lambda>(n, i). PleaseFillIn (label i))
          (filter (\<lambda>(n, i). widget_value entered n = []) all_fields)"
    unfolding trace
    by (simp add: page_filters tail_props(2) [OF tail] errors_of_validation_events blank_errors)
  {
    fix x assume x: "x \<in> set all_fields"
    obtain n i where ni: "x = (n, i)" by (cases x)
    show "case x of (n, i) \<Rightarrow> widget_value entered n = [] \<longrightarrow>
            St_error (PleaseFillIn (label i)) \<in> set (fst (main (Inr m) entered True))"
      unfolding ni trace using blank_reported [of n i entered] x ni by simp
  }
  {
    assume "\<exists>(n, i)\<in>set all_fields. widget_value entered n = []"
    then obtain n i where ni: "(n, i) \<in> set all_fields" and blank: "widget_value entered n = []"
      by auto
    from blank have "field_error i (widget_value entered n) \<noteq> None"
      by (simp add: field_error_def)
    with ni have "\<not> all_valid entered"
      unfolding all_valid_def list_all_iff by (auto intro!: bexI [of _ "(n, i)"])
    then show "\<not> list_ex is_Call_predict (fst (main (Inr m) entered True))"
      by (simp add: predict_called_iff [OF t])
  }
qed

text \<open>The filled form with the age left empty: one error, the one for Age, and no
  prediction; the validator of the blood pressure is called with the text entered.\<close>

theorem empty_fields_reported_witness:
  "truthy answers_one \<and>
   (''age'', Numeric (PyInt 0) (PyInt 120) ''Age'') \<in> set all_fields \<and>
   widget_value ((''age'', []) # filled_form) ''age'' = [] \<and>
   St_error (PleaseFillIn ''Age'')
     \<in> set (fst (main (Inr answers_one) ((''age'', []) # filled_form) True)) \<and>
   filter is_PleaseFillIn
     (errors_of (fst (main (Inr answers_one) ((''age'', []) # filled_form) True))) =
     [PleaseFillIn ''Age''] \<and>
   \<not> list_ex is_Call_predict (fst (main (Inr answers_one) ((''age'', []) # filled_form) True)) \<and>
   errors_of (fst (main (Inr answers_one) ((''age'', []) # filled_form) True)) =
     [PleaseFillIn ''Age''] \<and>
   Call_validate_numeric_input ''80'' (PyInt 50) (PyInt 200) ''Blood Pressure (mm Hg)''
     \<in> set (fst (main (Inr answers_one) ((''age'', []) # filled_form) True)) \<and>
   call_value
     (Call_validate_numeric_input ''80'' (PyInt 50) (PyInt 200) ''Blood Pressure (mm Hg)'') \<noteq>
     Some []"
proof -
  let ?entered = "(''age'', []) # filled_form"
  let ?call = "Call_validate_numeric_input ''80'' (PyInt 50) (PyInt 200) ''Blood Pressure (mm Hg)''"
  have t: "truthy answers_one" by (simp add: answers_one_def)
  have field: "(''age'', Numeric (PyInt 0) (PyInt 120) ''Age'') \<in> set all_fields"
    by (simp add: all_fields_eq input_categories_def)
  have blank: "widget_value ?entered ''age'' = []" by (simp add: widget_value_def)
  have blanks: "map (\<lambda>(n, i). PleaseFillIn (label i))
      (filter (\<lambda>(n, i). widget_value ?entered n = []) all_fields) = [PleaseFillIn ''Age'']"
    by (simp add: all_fields_eq input_categories_def widget_value_def filled_form_def)
  have invalid: "\<not> all_valid ?entered"
    unfolding all_valid_iff errors_age_blank by simp
  with t have "fst (main (Inr answers_one) ?entered True) =
      fst (render_page ?entered) @ validation_events ?entered"
    by (simp add: main_submitted)
  then have all_errors: "errors_of (fst (main (Inr answers_one) ?entered True)) =
      [PleaseFillIn ''Age'']"
    by (simp add: page_filters errors_of_validation_events errors_age_blank)
  have bp: "(''blood_pressure'', Numeric (PyInt 50) (PyInt 200) ''Blood Pressure (mm Hg)'')
      \<in> set all_fields"
    "widget_value ?entered ''blood_pressure'' = ''80''"
    by (simp_all add: all_fields_eq input_categories_def widget_value_def filled_form_def)
  from validator_called [OF t bp(1), of ?entered]
  have called: "?call \<in> set (fst (main (Inr answers_one) ?entered True))"
    by (simp add: bp(2) run_validator_def)
  note spec = empty_fields_reported [of answers_one ?entered "Inr answers_one" True]
  note submitted = spec [THEN conjunct1, rule_format, OF t]
  from spec [THEN conjunct2] called have not_empty: "call_value ?call \<noteq> Some []"
    by blast
  from submitted have shown: "St_error (PleaseFillIn ''Age'')
     \<in> set (fst (main (Inr answers_one) ?entered True))"
    using field blank by fastforce
  from submitted have no_predict:
    "\<not> list_ex is_Call_predict (fst (main (Inr answers_one) ?entered True))"
    using field blank by fastforce
  from submitted have one: "filter is_PleaseFillIn
     (errors_of (fst (main (Inr answers_one) ?entered True))) = [PleaseFillIn ''Age'']"
    unfolding blanks by simp
  from t field blank shown one no_predict all_errors called not_empty show ?thesis by simp
qed

lemma py_float_space: "py_float '' '' = None"
  by (simp add: parse_eval)

lemma errors_age_space:
  "List.map_filter (\<lambda>(n, i). field_error i (widget_value ((''age'', '' '') # filled_form) n))
     all_fields =
   [ShouldBeNumeric ''Age'']"
  by (simp add: map_filter_simps form_eval py_float_space)

lemma St_error_errors_of: "St_error m \<in> set evs \<longleftrightarrow> m \<in> set (errors_of evs)"
proof (induction evs)
  case Nil
  show ?case by simp
next
  case (Cons e evs)
  then show ?case by (cases e) auto
qed

text \<open>The filled form with a single space as the age: the input is blank but not empty,
  the numeric validator is called with it, and the error shown for the field is the one
  of the validator, not the "please fill in" error.\<close>

theorem blank_age_reaches_validator:
  "widget_value ((''age'', '' '') # filled_form) ''age'' = '' '' \<and>
   Call_validate_numeric_input '' '' (PyInt 0) (PyInt 120) ''Age''
     \<in> set (fst (main (Inr answers_one) ((''age'', '' '') # filled_form) True)) \<and>
   St_error (PleaseFillIn ''Age'')
     \<notin> set (fst (main (Inr answers_one) ((''age'', '' '') # filled_form) True)) \<and>
   errors_of (fst (main (Inr answers_one) ((''age'', '' '') # filled_form) True)) =
     [ShouldBeNumeric ''Age'']"
proof -
  let ?entered = "(''age'', '' '') # filled_form"
  have t: "truthy answers_one" by (simp add: answers_one_def)
  have field: "(''age'', Numeric (PyInt 0) (PyInt 120) ''Age'') \<in> set all_fields"
    by (simp add: all_fields_eq input_categories_def)
  have entered: "widget_value ?entered ''age'' = '' ''" by (simp add: widget_value_def)
  from validator_called [OF t field, of ?entered]
  have called: "Call_validate_numeric_input '' '' (PyInt 0) (PyInt 120) ''Age''
      \<in> set (fst (main (Inr answers_one) ?entered True))"
    by (simp add: entered run_validator_def)
  have "\<not> all_valid ?entered"
    unfolding all_valid_iff errors_age_space by simp
  with t have "fst (main (Inr answers_one) ?entered True) =
      fst (render_page ?entered) @ validation_events ?entered"
    by (simp add: main_submitted)
  then have errors: "errors_of (fst (main (Inr answers_one) ?entered True)) =
      [ShouldBeNumeric ''Age'']"
    by (simp add: page_filters errors_of_validation_events errors_age_space)
  then have "St_error (PleaseFillIn ''Age'')
      \<notin> set (fst (main (Inr answers_one) ?entered True))"
    by (simp add: St_error_errors_of)
  with entered called errors show ?thesis by simp
qed

section \<open>The feature vector\<close>

lemma render_fields_cong:
  assumes "\<And>k. widget_value e k = widget_value e' k"
  shows "render_fields e fl c iv = render_fields e' fl c iv"
proof (induction fl arbitrary: c iv)
  case Nil
  show ?case by simp
next
  case (Cons f fl)
  obtain n i where f: "f = (n, i)" by (cases f)
  show ?case
    unfolding f render_fields.simps assms Cons.IH ..
qed

lemma render_categories_cong:
  assumes "\<And>k. widget_value e k = widget_value e' k"
  shows "render_categories e cats iv = render_categories e' cats iv"
proof (induction cats arbitrary: iv)
  case Nil
  show ?case by simp
next
  case (Cons cat cats)
  obtain name fl where cat: "cat = (name, fl)" by (cases cat)
  show ?case
    unfolding cat render_categories.simps render_fields_cong [of e e', OF assms] Cons.IH ..
qed

lemma main_cong:
  assumes "map_of e = map_of e'"
  shows "main artifact e submitted = main artifact e' submitted"
proof -
  from assms have "\<And>k. widget_value e k = widget_value e' k"
    by (simp add: widget_value_def)
  then have page: "render_page e = render_page e'"
    by (simp add: render_page_def render_categories_cong [of e e'])
  show ?thesis unfolding main_def page ..
qed

lemma map_of_all_fields:
  "(n, i) \<in> set all_fields \<Longrightarrow> map_of all_fields n = Some i"
  using distinct_all_fields by simp

lemma feature_vector:
  assumes "Call_predict X \<in> set (fst (main artifact entered submitted))"
  shows "\<exists>arr. X = [arr] \<and> length arr = 24 \<and>
      (\<forall>k<24. \<exists>i. map_of all_fields (input_fields ! k) = Some i \<and>
          encode_input (input_fields ! k)
            (validated i (widget_value entered (input_fields ! k))) = Inr (arr ! k))"
proof -
  from predict_calledD [OF assms] obtain arr where valid: "all_valid entered"
    and X: "X = [arr]"
    and arr: "input_array (valid_inputs (final_state entered)) input_fields = Inr arr"
    by metis
  have len: "length input_fields = 24"
    by (simp add: input_fields_all_fields length_all_fields)
  from input_array_Inr [OF arr] have "length arr = 24"
    and nth: "\<And>k. k < 24 \<Longrightarrow> \<exists>v. map_of (valid_inputs (final_state entered)) (input_fields ! k) = Some v \<and>
        encode_input (input_fields ! k) v = Inr (arr ! k)"
    by (simp_all add: len)
  moreover have "\<exists>i. map_of all_fields (input_fields ! k) = Some i \<and>
          encode_input (input_fields ! k)
            (validated i (widget_value entered (input_fields ! k))) = Inr (arr ! k)"
    if k: "k < 24" for k
  proof -
    from k have "input_fields ! k \<in> set input_fields" by (simp add: len)
    then obtain i where i: "(input_fields ! k, i) \<in> set all_fields"
      by (auto simp: input_fields_all_fields)
    from nth [OF k] final_state_lookup [OF valid i] map_of_all_fields [OF i]
    show ?thesis by auto
  qed
  ultimately show ?thesis using X by blast
qed

text \<open>
  C1. The list of field names is the concatenation of the fields of the categories in
  the order of their declaration; whenever \<open>predict\<close> is called, its argument is one
  vector of 24 entries whose entry \<open>k\<close> is the encoding of the validated input of field
  \<open>k\<close> of that list; and neither the order in which the widgets were filled in nor the
  order of the entries of \<open>valid_inputs\<close> has any influence.
\<close>

theorem feature_vector_order:
  "input_fields =
     [''age'', ''blood_pressure'', ''specific_gravity'', ''albumin'', ''sugar'',
      ''red_blood_cells'', ''pus_cell'', ''pus_cell_clumps'', ''bacteria'',
      ''blood_glucose_random'', ''blood_urea'', ''serum_creatinine'', ''sodium'',
      ''potassium'', ''hemoglobin'', ''packed_cell_volume'', ''white_blood_cell_count'',
      ''red_blood_cell_count'', ''hypertension'', ''diabetes_mellitus'',
      ''coronary_artery_disease'', ''appetite'', ''pedal_edema'', ''anemia''] \<and>
   input_fields = concat (map (map fst \<circ> snd) input_categories) \<and>
   length input_fields = 24 \<and>
   (\<forall>X. Call_predict X \<in> set (fst (main artifact entered submitted)) \<longrightarrow>
      (\<exists>arr. X = [arr] \<and> length arr = 24 \<and>
         (\<forall>k<24. \<exists>i. map_of all_fields (input_fields ! k) = Some i \<and>
             encode_input (input_fields ! k)
               (validated i (widget_value entered (input_fields ! k))) = Inr (arr ! k)))) \<and>
   (\<forall>entered'. map_of entered' = map_of entered \<longrightarrow>
      main artifact entered' submitted = main artifact entered submitted) \<and>
   (\<forall>inputs inputs'. map_of inputs = map_of inputs' \<longrightarrow>
      input_array inputs input_fields = input_array inputs' input_fields)"
proof (intro conjI allI impI)
  show "input_fields =
     [''age'', ''blood_pressure'', ''specific_gravity'', ''albumin'', ''sugar'',
      ''red_blood_cells'', ''pus_cell'', ''pus_cell_clumps'', ''bacteria'',
      ''blood_glucose_random'', ''blood_urea'', ''serum_creatinine'', ''sodium'',
      ''potassium'', ''hemoglobin'', ''packed_cell_volume'', ''white_blood_cell_count'',
      ''red_blood_cell_count'', ''hypertension'', ''diabetes_mellitus'',
      ''coronary_artery_disease'', ''appetite'', ''pedal_edema'', ''anemia'']"
    by (rule input_fields_eq)
  show "input_fields = concat (map (map fst \<circ> snd) input_categories)"
    by (simp add: input_fields_def input_categories_def)
  show "length input_fields = 24"
    by (simp add: input_fields_all_fields length_all_fields)
next
  fix X assume "Call_predict X \<in> set (fst (main artifact entered submitted))"
  then show "\<exists>arr. X = [arr] \<and> length arr = 24 \<and>
         (\<forall>k<24. \<exists>i. map_of all_fields (input_fields ! k) = Some i \<and>
             encode_input (input_fields ! k)
               (validated i (widget_value entered (input_fields ! k))) = Inr (arr ! k))"
    by (rule feature_vector)
next
  fix entered' assume "map_of entered' = map_of entered"
  then show "main artifact entered' submitted = main artifact entered submitted"
    by (rule main_cong)
next
  fix inputs inputs' :: "(string \<times> pyval) list"
  assume "map_of inputs = map_of inputs'"
  then show "input_array inputs input_fields = input_array inputs' input_fields"
    by (rule input_array_cong)
qed

text \<open>The filled form entered in the reverse order: the same run, and a vector that
  starts with the age and has the appetite at position 21; and a dict with two entries in
  either order.\<close>

theorem feature_vector_order_witness:
  "map_of (rev filled_form) = map_of filled_form \<and>
   main (Inr answers_one) (rev filled_form) True = main (Inr answers_one) filled_form True \<and>
   (\<exists>arr. Call_predict [arr] \<in> set (fst (main (Inr answers_one) filled_form True)) \<and>
      length arr = 24 \<and> arr ! 0 = PyFloat (Fin 45) \<and>
      arr ! 2 = PyFloat (Fin (4571153621781053 / 4503599627370496)) \<and> arr ! 21 = PyInt 1) \<and>
   map_of [(''sugar'', Str ''b''), (''age'', Str ''a'')] =
     map_of [(''age'', Str ''a''), (''sugar'', Str ''b'')] \<and>
   input_array [(''sugar'', Str ''b''), (''age'', Str ''a'')] input_fields =
     input_array [(''age'', Str ''a''), (''sugar'', Str ''b'')] input_fields"
proof -
  note spec = feature_vector_order [of "Inr answers_one" filled_form True]
  have d: "distinct (map fst filled_form)" by (simp add: filled_form_def)
  then have "distinct (map fst (rev filled_form))" by (simp add: rev_map [symmetric])
  from map_of_inject_set [OF this d] have same: "map_of (rev filled_form) = map_of filled_form"
    by simp
  from spec same
  have run: "main (Inr answers_one) (rev filled_form) True = main (Inr answers_one) filled_form True"
    by blast
  have dicts: "map_of [(''sugar'', Str ''b''), (''age'', Str ''a'')] =
     map_of [(''age'', Str ''a''), (''sugar'', Str ''b'')]"
    by (auto simp: fun_eq_iff)
  from spec [THEN conjunct2, THEN conjunct2, THEN conjunct2, THEN conjunct2, THEN conjunct2,
      rule_format, OF dicts]
  have arrays: "input_array [(''sugar'', Str ''b''), (''age'', Str ''a'')] input_fields =
     input_array [(''age'', Str ''a''), (''sugar'', Str ''b'')] input_fields" .
  have "truthy answers_one" by (simp add: answers_one_def)
  from predict_called [OF this all_valid_filled_form] obtain arr0
    where called: "Call_predict [arr0] \<in> set (fst (main (Inr answers_one) filled_form True))" ..
  from spec called obtain arr where arr: "[arr0] = [arr]" "length arr = 24"
    and nth: "\<And>k. k < 24 \<Longrightarrow> \<exists>i. map_of all_fields (input_fields ! k) = Some i \<and>
        encode_input (input_fields ! k)
          (validated i (widget_value filled_form (input_fields ! k))) = Inr (arr ! k)"
    by blast
  have fields: "map_of all_fields ''age'' = Some (Numeric (PyInt 0) (PyInt 120) ''Age'')"
    "map_of all_fields ''specific_gravity'' =
       Some (Numeric (float_literal (201 / 200)) (float_literal (41 / 40)) ''Specific Gravity'')"
    "map_of all_fields ''appetite'' = Some (Categorical [''good'', ''poor''] ''Appetite'')"
    by (simp_all add: all_fields_eq input_categories_def)
  have encoded: "encode_input ''age''
        (validated (Numeric (PyInt 0) (PyInt 120) ''Age'') (widget_value filled_form ''age'')) =
      Inr (PyFloat (Fin 45))"
    "encode_input ''specific_gravity''
        (validated (Numeric (float_literal (201 / 200)) (float_literal (41 / 40)) ''Specific Gravity'')
           (widget_value filled_form ''specific_gravity'')) =
      Inr (PyFloat (Fin (4571153621781053 / 4503599627370496)))"
    "encode_input ''appetite''
        (validated (Categorical [''good'', ''poor''] ''Appetite'')
           (widget_value filled_form ''appetite'')) =
      Inr (PyInt 1)"
    by (simp_all add: validated_def form_eval encode_input_def categorical_encodings_def
        py_float_of_def)
  from nth [of 0] nth [of 2] nth [of 21] fields encoded
  have "arr ! 0 = PyFloat (Fin 45)"
    "arr ! 2 = PyFloat (Fin (4571153621781053 / 4503599627370496))" "arr ! 21 = PyInt 1"
    by (simp_all add: input_fields_eq)
  with arr called same run dicts arrays show ?thesis by auto
qed

section \<open>The numeric validator on the examples of the specification\<close>

text \<open>The field \<open>age\<close> with its bounds 0 and 120: the bounds themselves are accepted,
  one unit beyond them is rejected, a string that is no number (spaces alone included)
  gives the "numeric value" error, and a form with \<open>nan\<close> as the age has no error.\<close>

lemma validate_numeric_input_age_examples:
  "validate_numeric_input ''0'' (PyInt 0) (PyInt 120) ''Age'' = (Num (PyFloat (Fin 0)), None)"
  "validate_numeric_input ''120'' (PyInt 0) (PyInt 120) ''Age'' = (Num (PyFloat (Fin 120)), None)"
  "validate_numeric_input ''-1'' (PyInt 0) (PyInt 120) ''Age'' =
     (PyNone, Some (ShouldBeBetween ''Age'' (PyInt 0) (PyInt 120)))"
  "validate_numeric_input ''121'' (PyInt 0) (PyInt 120) ''Age'' =
     (PyNone, Some (ShouldBeBetween ''Age'' (PyInt 0) (PyInt 120)))"
  by (simp_all add: validate_numeric_input_def py_float_examples num_lt_def num_gt_def)

lemma validate_numeric_input_unparsable:
  "validate_numeric_input ''abc'' (PyInt 0) (PyInt 120) ''Age'' =
     (PyNone, Some (ShouldBeNumeric ''Age''))"
  "validate_numeric_input '' '' (PyInt 0) (PyInt 120) ''Age'' =
     (PyNone, Some (ShouldBeNumeric ''Age''))"
  by (simp_all add: validate_numeric_input_def parse_eval)

lemma nan_form_valid: "all_valid ((''age'', ''nan'') # filled_form)"
  by (simp add: all_valid_def form_eval py_float_nan)

end
